theory Spec2Isabelle
  imports Main "HOL-Library.Sublist" "HOL-Library.AList" "HOL-Library.Code_Target_Nat"
begin

section \<open>The changeset generator of scripts/auto-changeset.mjs\<close>

text \<open>
  A shallow embedding of \<^verbatim>\<open>src/scripts/auto-changeset.mjs\<close>. JavaScript strings are
  modelled as \<^typ>\<open>string\<close>, read as byte strings: ASCII text is one \<^typ>\<open>char\<close> per
  character and the Korean headings of the rendered document are their UTF-8 bytes.
  Whitespace and letter case are the ASCII ones (the tests of the script only compare
  against ASCII tokens). Console output is not part of the model: the observable result
  of a run is how the process ends and which files it has written.
\<close>

subsection \<open>String primitives\<close>

text \<open>\<^verbatim>\<open>String.prototype.startsWith\<close>.\<close>

definition startsWith :: "string \<Rightarrow> string \<Rightarrow> bool" where
  "startsWith s p = (take (length p) s = p)"

text \<open>\<^verbatim>\<open>String.prototype.includes\<close>: a search for the pattern at every position.\<close>

fun js_includes :: "string \<Rightarrow> string \<Rightarrow> bool" where
  "js_includes [] p = (p = [])"
| "js_includes (c # cs) p = (startsWith (c # cs) p \<or> js_includes cs p)"

text \<open>The white space stripped by \<^verbatim>\<open>trim\<close> and matched by \<^verbatim>\<open>\s\<close>:
  TAB, LF, VT, FF, CR and the space.\<close>

definition isWhiteSpace :: "char \<Rightarrow> bool" where
  "isWhiteSpace c = (c \<in> set [CHR 0x09, CHR 0x0A, CHR 0x0B, CHR 0x0C, CHR 0x0D, CHR 0x20])"

definition trim :: "string \<Rightarrow> string" where
  "trim s = rev (dropWhile isWhiteSpace (rev (dropWhile isWhiteSpace s)))"

definition lowerChar :: "char \<Rightarrow> char" where
  "lowerChar c =
     (case map_of (zip ''ABCDEFGHIJKLMNOPQRSTUVWXYZ'' ''abcdefghijklmnopqrstuvwxyz'') c of
        Some l \<Rightarrow> l
      | None \<Rightarrow> c)"

definition toLowerCase :: "string \<Rightarrow> string" where
  "toLowerCase s = map lowerChar s"

text \<open>\<^verbatim>\<open>s.split(sep)\<close> for a one-character separator; the result is never empty
  (\<^verbatim>\<open>"".split(" ")\<close> is \<^verbatim>\<open>[""]\<close>).\<close>

fun js_split :: "char \<Rightarrow> string \<Rightarrow> string list" where
  "js_split sep [] = [[]]"
| "js_split sep (c # cs) =
     (if c = sep then [] # js_split sep cs
      else (case js_split sep cs of
              w # ws \<Rightarrow> (c # w) # ws
            | [] \<Rightarrow> [[c]]))"

text \<open>\<^verbatim>\<open>parts.join(sep)\<close>.\<close>

fun js_join :: "char \<Rightarrow> string list \<Rightarrow> string" where
  "js_join sep [] = []"
| "js_join sep [w] = w"
| "js_join sep (w # v # ws) = w @ sep # js_join sep (v # ws)"

text \<open>\<^verbatim>\<open>s.replace(c, r)\<close> with a one-character string pattern: only the first
  occurrence is replaced.\<close>

fun replaceFirst :: "char \<Rightarrow> string \<Rightarrow> string \<Rightarrow> string" where
  "replaceFirst c r [] = []"
| "replaceFirst c r (x # xs) = (if x = c then r @ xs else x # replaceFirst c r xs)"

text \<open>A JavaScript value that is a string, \<^verbatim>\<open>null\<close> or \<^verbatim>\<open>undefined\<close> is a
  \<^typ>\<open>string option\<close>; it is truthy when it is a non-empty string.\<close>

definition truthy :: "string option \<Rightarrow> bool" where
  "truthy v = (case v of None \<Rightarrow> False | Some s \<Rightarrow> s \<noteq> [])"

text \<open>\<^verbatim>\<open>v || null\<close>.\<close>

definition orNull :: "string option \<Rightarrow> string option" where
  "orNull v = (if truthy v then v else None)"

text \<open>\<^verbatim>\<open>xs[i]\<close>, which is \<^verbatim>\<open>undefined\<close> out of range.\<close>

definition at :: "'a list \<Rightarrow> nat \<Rightarrow> 'a option" where
  "at xs i = (if i < length xs then Some (xs ! i) else None)"

subsection \<open>Data model\<close>

record package =
  name :: string
  path :: string
  directory :: string

record commitInfo =
  hash :: string
  message :: string
  files :: "string list"

datatype VersionBump = Patch | Minor | Major

text \<open>The total order of the bumps: major above minor above patch.\<close>

fun bumpRank :: "VersionBump \<Rightarrow> nat" where
  "bumpRank Patch = 0"
| "bumpRank Minor = 1"
| "bumpRank Major = 2"

record categories =
  features :: "string list"
  bugFixes :: "string list"
  refactoring :: "string list"
  performance :: "string list"
  documentation :: "string list"
  chores :: "string list"
  others :: "string list"

subsection \<open>The collaborators: version control and file system\<close>

text \<open>What a directory under \<^verbatim>\<open>packages/\<close> holds: no \<^verbatim>\<open>package.json\<close>, one that cannot
  be read or parsed (the read throws), or one with its \<^verbatim>\<open>name\<close>.\<close>

datatype manifest = NoManifest | Unreadable | Manifest string

text \<open>
  Every \<^verbatim>\<open>execSync\<close> call of the script is a query to the environment: the answer is
  the standard output of the command, and \<^term>\<open>None\<close> when the command fails and
  \<^verbatim>\<open>execSync\<close> throws. \<^verbatim>\<open>git_log\<close> takes the range \<^verbatim>\<open>from..to\<close>, \<^verbatim>\<open>git_show\<close> a
  commit hash, \<^verbatim>\<open>git_upstream\<close> a branch, \<^verbatim>\<open>git_verify\<close> a reference (it holds when
  \<^verbatim>\<open>git rev-parse --verify\<close> succeeds), \<^verbatim>\<open>git_merge_base\<close> the target and the source.
  \<^verbatim>\<open>packagesDir\<close> is the listing of \<^verbatim>\<open>packages/\<close> (\<^term>\<open>None\<close> when it does not exist)
  and \<^verbatim>\<open>writable\<close> tells for which paths \<^verbatim>\<open>writeFileSync\<close> succeeds.
\<close>

record env =
  packagesDir :: "(string \<times> manifest) list option"
  git_log :: "string \<Rightarrow> string option"
  git_show :: "string \<Rightarrow> string option"
  git_upstream :: "string \<Rightarrow> string option"
  git_verify :: "string \<Rightarrow> bool"
  git_merge_base :: "string \<Rightarrow> string \<Rightarrow> string option"
  writable :: "string \<Rightarrow> bool"

text \<open>The files of the repository, by path.\<close>

type_synonym filesystem = "string \<rightharpoonup> string"

text \<open>How a run ends: \<^verbatim>\<open>main\<close> returns, \<^verbatim>\<open>process.exit(code)\<close>, or an exception
  that nothing catches.\<close>

datatype outcome = Returned | Exit nat | Uncaught

subsection \<open>JavaScript objects with string keys\<close>

text \<open>
  The object \<^verbatim>\<open>packageCommits\<close> is an association list in the order its keys were
  created: \<^const>\<open>AList.update\<close> is \<^verbatim>\<open>obj[k] = v\<close>, \<^const>\<open>AList.delete\<close> is
  \<^verbatim>\<open>delete obj[k]\<close>. \<^verbatim>\<open>Object.keys\<close> lists the keys that are array indices first, in
  ascending numeric order, then the other keys in creation order. The keys are the names
  of the packages, taken to be ordinary property names (not \<^verbatim>\<open>__proto__\<close>).
\<close>

definition digitValue :: "char \<Rightarrow> nat" where
  "digitValue c = (case map_of (zip ''0123456789'' [0 ..< 10]) c of Some d \<Rightarrow> d | None \<Rightarrow> 0)"

definition decimalValue :: "string \<Rightarrow> nat" where
  "decimalValue s = foldl (\<lambda>n c. 10 * n + digitValue c) 0 s"

definition isArrayIndex :: "string \<Rightarrow> bool" where
  "isArrayIndex k =
     (k \<noteq> [] \<and> list_all (\<lambda>c. c \<in> set ''0123456789'') k
      \<and> (k = ''0'' \<or> take 1 k \<noteq> ''0'') \<and> decimalValue k \<le> 4294967294)"

definition objectKeys :: "(string \<times> 'v) list \<Rightarrow> string list" where
  "objectKeys obj =
     (let ks = map fst obj
      in sort_key decimalValue (filter isArrayIndex ks) @ filter (\<lambda>k. \<not> isArrayIndex k) ks)"

definition objectEntries :: "(string \<times> 'v) list \<Rightarrow> (string \<times> 'v) list" where
  "objectEntries obj = List.map_filter (\<lambda>k. map_option (Pair k) (map_of obj k)) (objectKeys obj)"

subsection \<open>getPackages (lines 85-105)\<close>

fun readManifests :: "(string \<times> manifest) list \<Rightarrow> unit + package list" where
  "readManifests [] = Inr []"
| "readManifests ((dir, m) # ds) =
     (case m of
        Manifest n \<Rightarrow>
          (case readManifests ds of
             Inl e \<Rightarrow> Inl e
           | Inr ps \<Rightarrow> Inr (\<lparr>name = n, path = ''packages/'' @ dir, directory = dir\<rparr> # ps))
      | _ \<Rightarrow> Inl ())"

text \<open>\<^term>\<open>Inl ()\<close> is the exception of a manifest that cannot be read, which
  \<^verbatim>\<open>getPackages\<close> does not catch.\<close>

definition getPackages :: "env \<Rightarrow> unit + package list" where
  "getPackages e =
     (case packagesDir e of
        None \<Rightarrow> Inr []
      | Some dirs \<Rightarrow> readManifests (filter (\<lambda>(dir, m). m \<noteq> NoManifest) dirs))"

subsection \<open>getCommitsInRange (lines 117-135) and getChangedFilesInCommit (lines 144-154)\<close>

definition getCommitsInRange :: "env \<Rightarrow> string \<Rightarrow> string \<Rightarrow> string list" where
  "getCommitsInRange e fromRef toRef =
     (let range = fromRef @ ''..'' @ toRef
      in case git_log e range of
           Some out \<Rightarrow>
             (let commits = filter (\<lambda>line. length line > 0) (js_split CHR 0x0A (trim out))
              in if length commits = 0 then [] else commits)
         | None \<Rightarrow> [])"

definition getChangedFilesInCommit :: "env \<Rightarrow> string \<Rightarrow> string list" where
  "getChangedFilesInCommit e commitHash =
     (case git_show e commitHash of
        Some out \<Rightarrow> filter (\<lambda>line. length line > 0) (js_split CHR 0x0A (trim out))
      | None \<Rightarrow> [])"

subsection \<open>categorizeCommitsByPackage (lines 163-202)\<close>

text \<open>The first field of a \<^verbatim>\<open>git log --oneline\<close> line and the rest of it.\<close>

definition commitHashOf :: "string \<Rightarrow> string" where
  "commitHashOf commitLine = (case js_split CHR '' '' commitLine of h # messageParts \<Rightarrow> h | [] \<Rightarrow> [])"

definition messageOf :: "string \<Rightarrow> string" where
  "messageOf commitLine =
     (case js_split CHR '' '' commitLine of
        h # messageParts \<Rightarrow> js_join CHR '' '' messageParts
      | [] \<Rightarrow> [])"

text \<open>The body of the inner \<^verbatim>\<open>packages.forEach\<close> (lines 179-191);
  \<^verbatim>\<open>packageCommits[pkg.name].push(c)\<close> is \<^const>\<open>AList.map_entry\<close>.\<close>

definition attributeToPackage ::
  "string \<Rightarrow> string \<Rightarrow> string list \<Rightarrow> package
   \<Rightarrow> (string \<times> commitInfo list) list \<Rightarrow> (string \<times> commitInfo list) list" where
  "attributeToPackage commitHash msg changedFiles pkg packageCommits =
     (let hasPackageChanges = list_ex (\<lambda>file. startsWith file (path pkg @ ''/'')) changedFiles
      in if hasPackageChanges
         then AList.map_entry (name pkg)
                (\<lambda>cs. cs @ [\<lparr>hash = commitHash, message = msg,
                              files = filter (\<lambda>file. startsWith file (path pkg @ ''/'')) changedFiles\<rparr>])
                packageCommits
         else packageCommits)"

text \<open>The body of \<^verbatim>\<open>commits.forEach\<close> (lines 171-192).\<close>

definition attributeCommit ::
  "env \<Rightarrow> package list \<Rightarrow> string
   \<Rightarrow> (string \<times> commitInfo list) list \<Rightarrow> (string \<times> commitInfo list) list" where
  "attributeCommit e packages commitLine packageCommits =
     (let commitHash = commitHashOf commitLine;
          msg = messageOf commitLine;
          changedFiles = getChangedFilesInCommit e commitHash
      in fold (attributeToPackage commitHash msg changedFiles) packages packageCommits)"

text \<open>The body of the last loop (lines 195-199).\<close>

definition deleteIfEmpty ::
  "string \<Rightarrow> (string \<times> commitInfo list) list \<Rightarrow> (string \<times> commitInfo list) list" where
  "deleteIfEmpty packageName packageCommits =
     (case map_of packageCommits packageName of
        Some cs \<Rightarrow> if length cs = 0 then AList.delete packageName packageCommits else packageCommits
      | None \<Rightarrow> packageCommits)"

definition categorizeCommitsByPackage ::
  "env \<Rightarrow> string list \<Rightarrow> package list \<Rightarrow> (string \<times> commitInfo list) list" where
  "categorizeCommitsByPackage e commits packages =
     (let initial = fold (\<lambda>pkg. AList.update (name pkg) []) packages [];
          filled = fold (attributeCommit e packages) commits initial
      in fold deleteIfEmpty (objectKeys filled) filled)"

subsection \<open>determineVersionType (lines 216-248)\<close>

definition determineVersionType :: "commitInfo list \<Rightarrow> VersionBump" where
  "determineVersionType commits =
     (let messages = map message commits;
          hasBreakingChange =
            list_ex (\<lambda>msg. js_includes msg ''BREAKING CHANGE'' \<or> js_includes msg ''!:'') messages
      in if hasBreakingChange then Major
         else
           let hasFeat = list_ex (\<lambda>msg. startsWith (toLowerCase (trim msg)) ''feat'') messages
           in if hasFeat then Minor
              else
                let hasFix = list_ex (\<lambda>msg. startsWith (toLowerCase (trim msg)) ''fix'') messages
                in if hasFix then Patch else Patch)"

text \<open>The reference definition of the bump, in the words of the specification: major if
  some subject contains \<^verbatim>\<open>BREAKING CHANGE\<close> or \<^verbatim>\<open>!:\<close> as a substring, else minor
  if some subject, trimmed and lowercased, starts with \<^verbatim>\<open>feat\<close>, else patch.\<close>

definition spec_bump :: "string list \<Rightarrow> VersionBump" where
  "spec_bump subjects =
     (if \<exists>s \<in> set subjects. sublist ''BREAKING CHANGE'' s \<or> sublist ''!:'' s then Major
      else if \<exists>s \<in> set subjects. prefix ''feat'' (toLowerCase (trim s)) then Minor
      else Patch)"

subsection \<open>categorizeCommits (lines 259-293)\<close>

text \<open>\<^verbatim>\<open>msg.replace(/^<type>:\s*/i, '')\<close>: the type token, in any letter case, its colon
  and the white space after it are removed when the message starts with them.\<close>

definition stripType :: "string \<Rightarrow> string \<Rightarrow> string" where
  "stripType tok msg =
     (if startsWith (toLowerCase msg) (tok @ '':'')
      then dropWhile isWhiteSpace (drop (length tok + 1) msg)
      else msg)"

definition categorizeCommit :: "commitInfo \<Rightarrow> categories \<Rightarrow> categories" where
  "categorizeCommit commit cats =
     (let msg = trim (message commit);
          lowerMsg = toLowerCase msg;
          h = take 7 (hash commit)
      in if startsWith lowerMsg ''feat''
         then cats\<lparr>features := features cats @ [stripType ''feat'' msg @ '' ('' @ h @ '')'']\<rparr>
         else if startsWith lowerMsg ''fix''
         then cats\<lparr>bugFixes := bugFixes cats @ [stripType ''fix'' msg @ '' ('' @ h @ '')'']\<rparr>
         else if startsWith lowerMsg ''refactor''
         then cats\<lparr>refactoring := refactoring cats @ [stripType ''refactor'' msg @ '' ('' @ h @ '')'']\<rparr>
         else if startsWith lowerMsg ''perf''
         then cats\<lparr>performance := performance cats @ [stripType ''perf'' msg @ '' ('' @ h @ '')'']\<rparr>
         else if startsWith lowerMsg ''docs''
         then cats\<lparr>documentation := documentation cats @ [stripType ''docs'' msg @ '' ('' @ h @ '')'']\<rparr>
         else if startsWith lowerMsg ''chore''
         then cats\<lparr>chores := chores cats @ [stripType ''chore'' msg @ '' ('' @ h @ '')'']\<rparr>
         else cats\<lparr>others := others cats @ [msg @ '' ('' @ h @ '')'']\<rparr>)"

definition categorizeCommits :: "commitInfo list \<Rightarrow> categories" where
  "categorizeCommits commits =
     fold categorizeCommit commits
       \<lparr>features = [], bugFixes = [], refactoring = [], performance = [],
        documentation = [], chores = [], others = []\<rparr>"

subsection \<open>generateKoreanSummary (lines 301-354)\<close>

text \<open>One block of the summary: the heading line and one line per item, or nothing for
  a category without items.\<close>

definition summaryBlock :: "string \<Rightarrow> string list \<Rightarrow> string" where
  "summaryBlock heading items =
     (if length items > 0
      then ''-   **'' @ heading @ ''**\<newline>''
           @ concat (map (\<lambda>i. ''    -   '' @ i @ ''\<newline>'') items)
      else [])"

text \<open>The seven headings, as the UTF-8 bytes of the Korean text of the source.\<close>

definition headingFeatures :: string where
  "headingFeatures =
     [CHR 0xEC, CHR 0x83, CHR 0x88, CHR 0xEB, CHR 0xA1, CHR 0x9C, CHR 0xEC, CHR 0x9A, CHR 0xB4,
      CHR 0x20, CHR 0xEA, CHR 0xB8, CHR 0xB0, CHR 0xEB, CHR 0x8A, CHR 0xA5]"

definition headingBugFixes :: string where
  "headingBugFixes =
     [CHR 0xEB, CHR 0xB2, CHR 0x84, CHR 0xEA, CHR 0xB7, CHR 0xB8, CHR 0x20, CHR 0xEC, CHR 0x88,
      CHR 0x98, CHR 0xEC, CHR 0xA0, CHR 0x95]"

definition headingRefactoring :: string where
  "headingRefactoring =
     [CHR 0xEB, CHR 0xA6, CHR 0xAC, CHR 0xED, CHR 0x8C, CHR 0xA9, CHR 0xED, CHR 0x86, CHR 0xA0,
      CHR 0xEB, CHR 0xA7, CHR 0x81]"

definition headingPerformance :: string where
  "headingPerformance =
     [CHR 0xEC, CHR 0x84, CHR 0xB1, CHR 0xEB, CHR 0x8A, CHR 0xA5, CHR 0x20, CHR 0xEA, CHR 0xB0,
      CHR 0x9C, CHR 0xEC, CHR 0x84, CHR 0xA0]"

definition headingDocumentation :: string where
  "headingDocumentation = [CHR 0xEB, CHR 0xAC, CHR 0xB8, CHR 0xEC, CHR 0x84, CHR 0x9C]"

definition headingChores :: string where
  "headingChores = [CHR 0xEA, CHR 0xB8, CHR 0xB0, CHR 0xED, CHR 0x83, CHR 0x80]"

definition headingOthers :: string where
  "headingOthers =
     [CHR 0xEA, CHR 0xB8, CHR 0xB0, CHR 0xED, CHR 0x83, CHR 0x80, CHR 0x20, CHR 0xEB, CHR 0xB3,
      CHR 0x80, CHR 0xEA, CHR 0xB2, CHR 0xBD, CHR 0xEC, CHR 0x82, CHR 0xAC, CHR 0xED, CHR 0x95,
      CHR 0xAD]"

definition headingRelatedPR :: string where
  "headingRelatedPR =
     [CHR 0xEA, CHR 0xB4, CHR 0x80, CHR 0xEB, CHR 0xA0, CHR 0xA8, CHR 0x20, CHR 0x50, CHR 0x52]"

definition generateKoreanSummary :: "categories \<Rightarrow> string" where
  "generateKoreanSummary cats =
     trim (summaryBlock headingFeatures (features cats)
           @ summaryBlock headingBugFixes (bugFixes cats)
           @ summaryBlock headingRefactoring (refactoring cats)
           @ summaryBlock headingPerformance (performance cats)
           @ summaryBlock headingDocumentation (documentation cats)
           @ summaryBlock headingChores (chores cats)
           @ summaryBlock headingOthers (others cats))"

subsection \<open>generateChangeset (lines 366-386)\<close>

fun versionTypeName :: "VersionBump \<Rightarrow> string" where
  "versionTypeName Major = ''major''"
| "versionTypeName Minor = ''minor''"
| "versionTypeName Patch = ''patch''"

definition generateChangeset :: "string \<Rightarrow> commitInfo list \<Rightarrow> string option \<Rightarrow> string" where
  "generateChangeset packageName commits url =
     (let versionType = determineVersionType commits;
          cats = categorizeCommits commits;
          summary = generateKoreanSummary cats;
          changeset = ''---\<newline>'' @ [CHR 0x22] @ packageName @ [CHR 0x22] @ '': ''
                      @ versionTypeName versionType @ ''\<newline>---\<newline>\<newline>''
                      @ summary @ ''\<newline>''
      in case url of
           Some u \<Rightarrow>
             if u \<noteq> []
             then changeset @ ''\<newline>**'' @ headingRelatedPR @ ''**: [#''
                  @ last (js_split CHR ''/'' u) @ ''](''  @ u @ '')\<newline>''
             else changeset
         | None \<Rightarrow> changeset)"

subsection \<open>main (lines 425-536)\<close>

text \<open>The test \<^verbatim>\<open>/^https?:\/\//i\<close>.\<close>

definition isUrl :: "string \<Rightarrow> bool" where
  "isUrl a = (startsWith (toLowerCase a) ''http://'' \<or> startsWith (toLowerCase a) ''https://'')"

record arguments =
  arg_prUrl :: "string option"
  arg_sourceBranch :: "string option"
  arg_targetArg :: "string option"
  arg_prNumber :: "string option"

text \<open>Lines 427-433. \<^verbatim>\<open>url.split('/').pop()\<close> is the last field of the split.\<close>

definition parseArgs :: "string list \<Rightarrow> arguments" where
  "parseArgs args =
     (let url = orNull (List.find isUrl args);
          nonUrlArgs = filter (\<lambda>a. \<not> isUrl a) args
      in \<lparr>arg_prUrl = url,
          arg_sourceBranch = orNull (at nonUrlArgs 0),
          arg_targetArg = orNull (at nonUrlArgs 1),
          arg_prNumber =
            (if truthy (at nonUrlArgs 2) then at nonUrlArgs 2
             else if truthy url then map_option (\<lambda>u. last (js_split CHR ''/'' u)) url
             else None)\<rparr>)"

text \<open>Lines 455-471: the loop over the candidates returns at the first reference that
  \<^verbatim>\<open>git rev-parse --verify\<close> accepts.\<close>

fun firstVerified :: "env \<Rightarrow> string list \<Rightarrow> string option" where
  "firstVerified e [] = None"
| "firstVerified e (c # cs) = (if git_verify e c then Some c else firstVerified e cs)"

definition getDefaultBaseRef :: "env \<Rightarrow> string \<Rightarrow> string" where
  "getDefaultBaseRef e branch =
     (let upstream = (case git_upstream e branch of Some out \<Rightarrow> Some (trim out) | None \<Rightarrow> None)
      in if truthy upstream then (case upstream of Some u \<Rightarrow> u | None \<Rightarrow> [])
         else (case firstVerified e [''origin/main'', ''main'', ''origin/master'', ''master''] of
                 Some c \<Rightarrow> c
               | None \<Rightarrow> ''origin/main''))"

text \<open>Line 473: \<^verbatim>\<open>targetArg || getDefaultBaseRef(sourceBranch)\<close>.\<close>

definition targetBranchOf :: "env \<Rightarrow> string \<Rightarrow> string option \<Rightarrow> string" where
  "targetBranchOf e sourceBranch targetArg =
     (if truthy targetArg then (case targetArg of Some t \<Rightarrow> t | None \<Rightarrow> [])
      else getDefaultBaseRef e sourceBranch)"

text \<open>Lines 474-480.\<close>

definition mergeBaseOf :: "env \<Rightarrow> string \<Rightarrow> string \<Rightarrow> string" where
  "mergeBaseOf e targetBranch sourceBranch =
     (case git_merge_base e targetBranch sourceBranch of
        Some out \<Rightarrow> trim out
      | None \<Rightarrow> targetBranch)"

text \<open>Lines 523-525: the name and the path of the file of a package. The path is
  relative to the root of the repository.\<close>

definition safePackageName :: "string \<Rightarrow> string" where
  "safePackageName packageName = replaceFirst CHR ''/'' ''-'' (replaceFirst CHR ''@'' [] packageName)"

definition changesetFilename :: "string \<Rightarrow> string \<Rightarrow> string" where
  "changesetFilename prNumber packageName =
     ''auto-pr-'' @ prNumber @ ''-'' @ safePackageName packageName @ ''.md''"

definition changesetPath :: "string \<Rightarrow> string \<Rightarrow> string" where
  "changesetPath prNumber packageName = ''.changeset/'' @ changesetFilename prNumber packageName"

text \<open>The body of the loop over \<^verbatim>\<open>Object.entries(packageCommits)\<close> (lines 515-533): a
  write that fails is caught and the loop goes on.\<close>

definition writeChangeset ::
  "env \<Rightarrow> string option \<Rightarrow> string \<Rightarrow> string \<times> commitInfo list \<Rightarrow> filesystem \<Rightarrow> filesystem" where
  "writeChangeset e url prNumber entry fs =
     (case entry of
        (packageName, commits) \<Rightarrow>
          (let changeset = generateChangeset packageName commits url;
               target = changesetPath prNumber packageName
           in if writable e target then fs(target \<mapsto> changeset) else fs))"

text \<open>Lines 496-535: from the commits of the range to the files.\<close>

definition generateAll ::
  "env \<Rightarrow> string option \<Rightarrow> string \<Rightarrow> package list \<Rightarrow> string list \<Rightarrow> filesystem
   \<Rightarrow> outcome \<times> filesystem" where
  "generateAll e url prNumber packages commits fs =
     (if length commits = 0 then (Returned, fs)
      else
        let packageCommits = categorizeCommitsByPackage e commits packages
        in if length (objectKeys packageCommits) = 0 then (Returned, fs)
           else (Returned, fold (writeChangeset e url prNumber) (objectEntries packageCommits) fs))"

definition main :: "env \<Rightarrow> string list \<Rightarrow> filesystem \<Rightarrow> outcome \<times> filesystem" where
  "main e argv fs =
     (let args = parseArgs argv
      in case arg_sourceBranch args of
           None \<Rightarrow> (Exit 1, fs)
         | Some sourceBranch \<Rightarrow>
             (case arg_prNumber args of
                None \<Rightarrow> (Exit 1, fs)
              | Some prNumber \<Rightarrow>
                  (if prNumber = [] then (Exit 1, fs)
                   else
                     (let targetBranch = targetBranchOf e sourceBranch (arg_targetArg args);
                          mergeBase = mergeBaseOf e targetBranch sourceBranch
                      in (case getPackages e of
                            Inl exn \<Rightarrow> (Uncaught, fs)
                          | Inr packages \<Rightarrow>
                              (if length packages = 0 then (Exit 1, fs)
                               else generateAll e (arg_prUrl args) prNumber packages
                                      (getCommitsInRange e mergeBase sourceBranch) fs))))))"

subsection \<open>Reference definitions of the specification\<close>

text \<open>The upstream reference of a branch, when the query answers with one.\<close>

definition upstreamRef :: "env \<Rightarrow> string \<Rightarrow> string option" where
  "upstreamRef e branch =
     (case git_upstream e branch of
        Some out \<Rightarrow> if trim out = [] then None else Some (trim out)
      | None \<Rightarrow> None)"

text \<open>The resolution order of the target branch, in the words of the specification: the
  override, else the upstream of the source branch, else the first candidate that is a
  valid reference, else \<^verbatim>\<open>origin/main\<close>.\<close>

definition spec_targetBranch :: "env \<Rightarrow> string \<Rightarrow> string option \<Rightarrow> string" where
  "spec_targetBranch e sourceBranch override =
     (case override of
        Some t \<Rightarrow> t
      | None \<Rightarrow>
          (case upstreamRef e sourceBranch of
             Some u \<Rightarrow> u
           | None \<Rightarrow>
               (case List.find (git_verify e) [''origin/main'', ''main'', ''origin/master'', ''master''] of
                  Some c \<Rightarrow> c
                | None \<Rightarrow> ''origin/main'')))"

text \<open>The attribution in the words of the specification: the files of a commit that lie
  under the root path of a package, whether the commit is attributed to the package, and
  the entry recorded for it. A commit is a line of the log.\<close>

definition matchedFiles :: "env \<Rightarrow> string \<Rightarrow> package \<Rightarrow> string list" where
  "matchedFiles e commitLine pkg =
     filter (\<lambda>file. prefix (path pkg @ ''/'') file)
       (getChangedFilesInCommit e (commitHashOf commitLine))"

definition attributed :: "env \<Rightarrow> string \<Rightarrow> package \<Rightarrow> bool" where
  "attributed e commitLine pkg = (matchedFiles e commitLine pkg \<noteq> [])"

definition attributionOf :: "env \<Rightarrow> string \<Rightarrow> package \<Rightarrow> commitInfo" where
  "attributionOf e commitLine pkg =
     \<lparr>hash = commitHashOf commitLine, message = messageOf commitLine,
      files = matchedFiles e commitLine pkg\<rparr>"

text \<open>The commits recorded under a package name (none when the name is not a key).\<close>

definition recorded :: "(string \<times> commitInfo list) list \<Rightarrow> string \<Rightarrow> commitInfo list" where
  "recorded packageCommits k = (case map_of packageCommits k of Some cs \<Rightarrow> cs | None \<Rightarrow> [])"

subsection \<open>Example environments\<close>

text \<open>A repository in which every query fails: no \<^verbatim>\<open>packages/\<close> directory, no
  reference resolves, no write succeeds.\<close>

definition failingEnv :: env where
  "failingEnv =
     \<lparr>packagesDir = None, git_log = (\<lambda>r. None), git_show = (\<lambda>h. None),
      git_upstream = (\<lambda>b. None), git_verify = (\<lambda>r. False),
      git_merge_base = (\<lambda>t s. None), writable = (\<lambda>p. False)\<rparr>"

text \<open>A repository with the packages \<^verbatim>\<open>core\<close> and \<^verbatim>\<open>ui\<close> and two commits on the
  branch \<^verbatim>\<open>feature\<close>, in which the merge base cannot be computed and the changed files
  of the second commit cannot be listed.\<close>

definition degradedEnv :: env where
  "degradedEnv =
     \<lparr>packagesDir = Some [(''core'', Manifest ''core''), (''docs'', NoManifest), (''ui'', Manifest ''ui'')],
      git_log = (\<lambda>r. if r = ''origin/main..feature''
                      then Some ''1111111 feat: add button\<newline>2222222 fix!: null deref\<newline>''
                      else None),
      git_show = (\<lambda>h. if h = ''1111111'' then Some ''packages/ui/src/Button.ts\<newline>'' else None),
      git_upstream = (\<lambda>b. None),
      git_verify = (\<lambda>r. r = ''origin/main''),
      git_merge_base = (\<lambda>t s. None),
      writable = (\<lambda>p. True)\<rparr>"

text \<open>A repository with three packages and three commits on the branch \<^verbatim>\<open>feature\<close>:
  the first touches \<^verbatim>\<open>ui\<close> twice and the root, the second no package, the third
  \<^verbatim>\<open>core\<close> and \<^verbatim>\<open>ui\<close>.\<close>

definition samplePackages :: "package list" where
  "samplePackages =
     [\<lparr>name = ''core'', path = ''packages/core'', directory = ''core''\<rparr>,
      \<lparr>name = ''@scope/eslint'', path = ''packages/eslint'', directory = ''eslint''\<rparr>,
      \<lparr>name = ''ui'', path = ''packages/ui'', directory = ''ui''\<rparr>]"

definition sampleLog :: "string list" where
  "sampleLog = [''aaaaaaa1 feat: add button'', ''bbbbbbb2 chore: bump ci'', ''ccccccc3 fix: shared types'']"

definition sampleEnv :: env where
  "sampleEnv =
     \<lparr>packagesDir = Some [(''core'', Manifest ''core''), (''eslint'', Manifest ''@scope/eslint''),
                          (''tmp'', NoManifest), (''ui'', Manifest ''ui'')],
      git_log = (\<lambda>r. if r = ''base..feature''
                      then Some ''aaaaaaa1 feat: add button\<newline>bbbbbbb2 chore: bump ci\<newline>ccccccc3 fix: shared types\<newline>''
                      else None),
      git_show = (\<lambda>h. if h = ''aaaaaaa1''
                       then Some ''packages/ui/src/Button.ts\<newline>packages/ui/src/index.ts\<newline>README.md\<newline>''
                       else if h = ''bbbbbbb2''
                       then Some ''.github/workflows/ci.yml\<newline>packages/uikit/x.ts\<newline>''
                       else if h = ''ccccccc3''
                       then Some ''packages/core/src/x.ts\<newline>packages/ui/src/y.ts\<newline>''
                       else None),
      git_upstream = (\<lambda>b. None),
      git_verify = (\<lambda>r. r = ''main''),
      git_merge_base = (\<lambda>t s. if t = ''main'' \<and> s = ''feature'' then Some ''base\<newline>'' else None),
      writable = (\<lambda>p. True)\<rparr>"

text \<open>The scenario of the specification: the packages \<^verbatim>\<open>core\<close> and \<^verbatim>\<open>ui\<close>, one
  commit that adds a button to \<^verbatim>\<open>ui\<close> and one that fixes \<^verbatim>\<open>core\<close> with a breaking
  marker.\<close>

definition scenarioPackages :: "package list" where
  "scenarioPackages =
     [\<lparr>name = ''core'', path = ''packages/core'', directory = ''core''\<rparr>,
      \<lparr>name = ''ui'', path = ''packages/ui'', directory = ''ui''\<rparr>]"

definition scenarioLog :: "string list" where
  "scenarioLog = [''1111111 feat: add button'', ''2222222 fix!: null deref'']"

definition scenarioEnv :: env where
  "scenarioEnv =
     \<lparr>packagesDir = Some [(''core'', Manifest ''core''), (''ui'', Manifest ''ui'')],
      git_log = (\<lambda>r. if r = ''origin/main..feature''
                      then Some ''1111111 feat: add button\<newline>2222222 fix!: null deref\<newline>''
                      else None),
      git_show = (\<lambda>h. if h = ''1111111'' then Some ''packages/ui/src/Button.ts\<newline>''
                       else if h = ''2222222'' then Some ''packages/core/src/x.ts\<newline>''
                       else None),
      git_upstream = (\<lambda>b. None),
      git_verify = (\<lambda>r. r = ''origin/main''),
      git_merge_base = (\<lambda>t s. Some ''origin/main''),
      writable = (\<lambda>p. True)\<rparr>"

section \<open>Properties\<close>

subsection \<open>Strings\<close>

lemma startsWith_prefix: "startsWith s p = prefix p s"
  unfolding startsWith_def
  by (metis append_eq_conv_conj prefix_def take_is_prefix)

lemma js_includes_sublist: "js_includes s p = sublist p s"
proof (induction s)
  case Nil
  show ?case by auto
next
  case (Cons c cs)
  show ?case
    by (simp add: Cons.IH startsWith_prefix sublist_Cons_right)
qed

subsection \<open>Version bump\<close>

text \<open>
  Claim C1. For the commits attributed to one package (any list of them, and so every
  non-empty one), the bump computed by \<^verbatim>\<open>determineVersionType\<close> is the one the reference
  definition gives for their subjects: major for a subject containing
  \<^verbatim>\<open>BREAKING CHANGE\<close> or \<^verbatim>\<open>!:\<close>, else minor for a subject that starts with
  \<^verbatim>\<open>feat\<close> once trimmed and lowercased, else patch, whether or not a subject starts with
  \<^verbatim>\<open>fix\<close>. The result is never below patch.
\<close>

theorem determineVersionType_spec:
  "determineVersionType commits = spec_bump (map message commits)
   \<and> bumpRank Patch \<le> bumpRank (determineVersionType commits)"
  by (simp add: determineVersionType_def spec_bump_def Let_def list_ex_iff
      js_includes_sublist startsWith_prefix)

theorem determineVersionType_spec_witness:
  "determineVersionType
     [\<lparr>hash = ''1a2b3c4d'', message = ''docs: typo'', files = [''packages/ui/README.md'']\<rparr>,
      \<lparr>hash = ''5e6f7a8b'', message = '' Feat: add button'', files = [''packages/ui/src/Button.ts'']\<rparr>]
   = spec_bump [''docs: typo'', '' Feat: add button'']
   \<and> determineVersionType
       [\<lparr>hash = ''1a2b3c4d'', message = ''docs: typo'', files = [''packages/ui/README.md'']\<rparr>,
        \<lparr>hash = ''5e6f7a8b'', message = '' Feat: add button'', files = [''packages/ui/src/Button.ts'']\<rparr>]
     = Minor"
proof -
  have "determineVersionType
       [\<lparr>hash = ''1a2b3c4d'', message = ''docs: typo'', files = [''packages/ui/README.md'']\<rparr>,
        \<lparr>hash = ''5e6f7a8b'', message = '' Feat: add button'', files = [''packages/ui/src/Button.ts'']\<rparr>]
     = Minor"
    by code_simp
  with determineVersionType_spec
    [of "[\<lparr>hash = ''1a2b3c4d'', message = ''docs: typo'', files = [''packages/ui/README.md'']\<rparr>,
          \<lparr>hash = ''5e6f7a8b'', message = '' Feat: add button'', files = [''packages/ui/src/Button.ts'']\<rparr>]"]
  show ?thesis by simp
qed

lemma firstVerified_find: "firstVerified e cs = List.find (git_verify e) cs"
  by (induction cs) auto

lemma orNull_cases: "orNull v = None \<or> (\<exists>s. orNull v = Some s \<and> s \<noteq> [])"
  by (cases v) (auto simp: orNull_def truthy_def)

subsection \<open>Target branch\<close>

text \<open>
  Claim C7. The target branch of a run is resolved in this order: the override given on
  the command line; else the upstream reference of the source branch, when the query
  answers with one; else the first of \<^verbatim>\<open>origin/main\<close>, \<^verbatim>\<open>main\<close>, \<^verbatim>\<open>origin/master\<close>,
  \<^verbatim>\<open>master\<close> that is a valid reference; else \<^verbatim>\<open>origin/main\<close>.
\<close>

theorem targetBranch_resolution_order:
  "targetBranchOf e sourceBranch (arg_targetArg (parseArgs argv))
   = spec_targetBranch e sourceBranch (arg_targetArg (parseArgs argv))"
proof -
  have *: "targetBranchOf e sourceBranch (orNull v) = spec_targetBranch e sourceBranch (orNull v)" for v
    using orNull_cases [of v]
    by (auto simp: targetBranchOf_def spec_targetBranch_def getDefaultBaseRef_def upstreamRef_def
        truthy_def firstVerified_find Let_def split: option.splits)
  show ?thesis
    by (simp add: parseArgs_def Let_def *)
qed

theorem targetBranch_resolution_order_witness:
  "targetBranchOf
     \<lparr>packagesDir = None, git_log = (\<lambda>r. None), git_show = (\<lambda>h. None),
      git_upstream = (\<lambda>b. None), git_verify = (\<lambda>r. r = ''main'' \<or> r = ''master''),
      git_merge_base = (\<lambda>t s. None), writable = (\<lambda>p. True)\<rparr>
     ''feature'' (arg_targetArg (parseArgs [''feature'']))
   = ''main''"
proof -
  have "spec_targetBranch
     \<lparr>packagesDir = None, git_log = (\<lambda>r. None), git_show = (\<lambda>h. None),
      git_upstream = (\<lambda>b. None), git_verify = (\<lambda>r. r = ''main'' \<or> r = ''master''),
      git_merge_base = (\<lambda>t s. None), writable = (\<lambda>p. True)\<rparr>
     ''feature'' (arg_targetArg (parseArgs [''feature'']))
   = ''main''"
    by code_simp
  then show ?thesis
    by (simp only: targetBranch_resolution_order)
qed

subsection \<open>File names\<close>

lemma count_replaceFirst_same:
  "c \<notin> set r \<Longrightarrow> count_list (replaceFirst c r xs) c = count_list xs c - 1"
  by (induction xs) auto

lemma count_replaceFirst_other:
  "d \<noteq> c \<Longrightarrow> d \<notin> set r \<Longrightarrow> count_list (replaceFirst c r xs) d = count_list xs d"
  by (induction xs) auto

lemma count_safePackageName_at:
  "count_list (safePackageName n) CHR ''@'' = count_list n CHR ''@'' - 1"
  by (simp add: safePackageName_def count_replaceFirst_same count_replaceFirst_other)

lemma count_safePackageName_slash:
  "count_list (safePackageName n) CHR ''/'' = count_list n CHR ''/'' - 1"
  by (simp add: safePackageName_def count_replaceFirst_same count_replaceFirst_other)

lemma replaceFirst_split:
  "c \<notin> set a \<Longrightarrow> replaceFirst c r (a @ c # b) = a @ r @ b"
  by (induction a) auto

lemma replaceFirst_absent: "c \<notin> set xs \<Longrightarrow> replaceFirst c r xs = xs"
  by (induction xs) auto

lemma safePackageName_plain:
  "CHR ''@'' \<notin> set n \<Longrightarrow> CHR ''/'' \<notin> set n \<Longrightarrow> safePackageName n = n"
  by (simp add: safePackageName_def replaceFirst_absent)

lemma safePackageName_at_only:
  assumes "CHR ''@'' \<notin> set a" and "CHR ''/'' \<notin> set (a @ b)"
  shows "safePackageName (a @ CHR ''@'' # b) = a @ b"
  using assms by (simp add: safePackageName_def replaceFirst_split replaceFirst_absent)

lemma safePackageName_slash_only:
  assumes "CHR ''/'' \<notin> set a" and "CHR ''@'' \<notin> set (a @ b)"
  shows "safePackageName (a @ CHR ''/'' # b) = a @ CHR ''-'' # b"
proof -
  from assms have "replaceFirst CHR ''@'' [] (a @ CHR ''/'' # b) = a @ CHR ''/'' # b"
    by (simp add: replaceFirst_absent)
  with assms(1) show ?thesis
    by (simp add: safePackageName_def replaceFirst_split)
qed

lemma safePackageName_at_then_slash:
  assumes "CHR ''@'' \<notin> set a" and "CHR ''/'' \<notin> set (a @ c)"
  shows "safePackageName (a @ CHR ''@'' # c @ CHR ''/'' # d) = a @ c @ CHR ''-'' # d"
proof -
  from assms(1) have "replaceFirst CHR ''@'' [] (a @ CHR ''@'' # c @ CHR ''/'' # d)
      = (a @ c) @ CHR ''/'' # d"
    by (simp add: replaceFirst_split)
  moreover from assms(2) have "replaceFirst CHR ''/'' ''-'' ((a @ c) @ CHR ''/'' # d)
      = (a @ c) @ ''-'' @ d"
    by (intro replaceFirst_split)
  ultimately show ?thesis
    by (simp add: safePackageName_def)
qed

lemma safePackageName_slash_then_at:
  assumes "CHR ''/'' \<notin> set a" and "CHR ''@'' \<notin> set (a @ c)"
  shows "safePackageName (a @ CHR ''/'' # c @ CHR ''@'' # d) = a @ CHR ''-'' # c @ d"
proof -
  from assms(2) have "CHR ''@'' \<notin> set (a @ CHR ''/'' # c)"
    by simp
  then have "replaceFirst CHR ''@'' [] ((a @ CHR ''/'' # c) @ CHR ''@'' # d)
      = (a @ CHR ''/'' # c) @ [] @ d"
    by (intro replaceFirst_split)
  moreover from assms(1) have "replaceFirst CHR ''/'' ''-'' (a @ CHR ''/'' # (c @ d))
      = a @ ''-'' @ (c @ d)"
    by (intro replaceFirst_split)
  ultimately show ?thesis
    by (simp add: safePackageName_def)
qed

text \<open>
  Claim C9. The sanitization removes the first \<^verbatim>\<open>@\<close> of the package name and turns its
  first \<^verbatim>\<open>/\<close> into \<^verbatim>\<open>-\<close>, and keeps every other character where it is: a name
  without them is unchanged; in a name split at its first \<^verbatim>\<open>@\<close>, at its first
  \<^verbatim>\<open>/\<close>, or at both (in either order), exactly these occurrences are replaced and
  what comes before, between and after them is kept, later \<^verbatim>\<open>@\<close> and \<^verbatim>\<open>/\<close>
  included. The file name is built from that sanitized name. So the sanitized name has
  one \<^verbatim>\<open>@\<close> less and one \<^verbatim>\<open>/\<close> less than the package name (none less when there
  is none): a name with at most one of each loses them all, and a name with two or more
  \<^verbatim>\<open>/\<close> keeps a \<^verbatim>\<open>/\<close> in the sanitized name and in the file name.
\<close>

theorem safePackageName_first_occurrence_only:
  "(CHR ''@'' \<notin> set n \<and> CHR ''/'' \<notin> set n \<longrightarrow> safePackageName n = n)
   \<and> (CHR ''@'' \<notin> set a \<and> CHR ''/'' \<notin> set (a @ b)
        \<longrightarrow> safePackageName (a @ CHR ''@'' # b) = a @ b)
   \<and> (CHR ''/'' \<notin> set a \<and> CHR ''@'' \<notin> set (a @ b)
        \<longrightarrow> safePackageName (a @ CHR ''/'' # b) = a @ CHR ''-'' # b)
   \<and> (CHR ''@'' \<notin> set a \<and> CHR ''/'' \<notin> set (a @ c)
        \<longrightarrow> safePackageName (a @ CHR ''@'' # c @ CHR ''/'' # d) = a @ c @ CHR ''-'' # d)
   \<and> (CHR ''/'' \<notin> set a \<and> CHR ''@'' \<notin> set (a @ c)
        \<longrightarrow> safePackageName (a @ CHR ''/'' # c @ CHR ''@'' # d) = a @ CHR ''-'' # c @ d)
   \<and> changesetFilename pr n = ''auto-pr-'' @ pr @ ''-'' @ safePackageName n @ ''.md''
   \<and> count_list (safePackageName n) CHR ''@'' = count_list n CHR ''@'' - 1
   \<and> count_list (safePackageName n) CHR ''/'' = count_list n CHR ''/'' - 1
   \<and> (count_list n CHR ''@'' \<le> 1 \<and> count_list n CHR ''/'' \<le> 1
        \<longrightarrow> CHR ''@'' \<notin> set (safePackageName n) \<and> CHR ''/'' \<notin> set (safePackageName n))
   \<and> (2 \<le> count_list n CHR ''/''
        \<longrightarrow> CHR ''/'' \<in> set (safePackageName n) \<and> CHR ''/'' \<in> set (changesetFilename pr n))"
proof -
  have at: "count_list (safePackageName n) CHR ''@'' = count_list n CHR ''@'' - 1"
    by (rule count_safePackageName_at)
  have sl: "count_list (safePackageName n) CHR ''/'' = count_list n CHR ''/'' - 1"
    by (rule count_safePackageName_slash)
  have few: "CHR ''@'' \<notin> set (safePackageName n) \<and> CHR ''/'' \<notin> set (safePackageName n)"
    if "count_list n CHR ''@'' \<le> 1 \<and> count_list n CHR ''/'' \<le> 1"
    using that at sl by (simp add: count_list_0_iff [symmetric])
  have many: "CHR ''/'' \<in> set (safePackageName n) \<and> CHR ''/'' \<in> set (changesetFilename pr n)"
    if "2 \<le> count_list n CHR ''/''"
  proof -
    have "count_list (safePackageName n) CHR ''/'' \<noteq> 0"
      using that sl by simp
    then have "CHR ''/'' \<in> set (safePackageName n)"
      by (simp add: count_list_0_iff)
    then show ?thesis
      by (simp add: changesetFilename_def)
  qed
  have name: "changesetFilename pr n = ''auto-pr-'' @ pr @ ''-'' @ safePackageName n @ ''.md''"
    by (simp add: changesetFilename_def)
  from at sl few many name
    safePackageName_plain [of n] safePackageName_at_only [of a b]
    safePackageName_slash_only [of a b] safePackageName_at_then_slash [of a c d]
    safePackageName_slash_then_at [of a c d]
  show ?thesis by blast
qed

theorem safePackageName_first_occurrence_only_witness:
  "safePackageName ''@scope/pkg/sub'' = ''scope-pkg/sub''
   \<and> changesetFilename ''12'' ''@scope/pkg/sub'' = ''auto-pr-12-scope-pkg/sub.md''
   \<and> safePackageName ''a/b@c@d'' = ''a-bc@d''
   \<and> safePackageName ''a/b/c'' = ''a-b/c''
   \<and> safePackageName ''@a@b'' = ''a@b''
   \<and> safePackageName ''ui'' = ''ui''
   \<and> CHR ''/'' \<in> set (changesetFilename ''12'' ''a/b/c'')"
proof -
  have "safePackageName ''@scope/pkg/sub'' = ''scope-pkg/sub''
      \<and> changesetFilename ''12'' ''@scope/pkg/sub''
          = ''auto-pr-12-'' @ safePackageName ''@scope/pkg/sub'' @ ''.md''"
    using safePackageName_first_occurrence_only
      [where n = "''@scope/pkg/sub''" and pr = "''12''" and a = "[]" and b = "[]"
         and c = "''scope''" and d = "''pkg/sub''"]
    by simp
  moreover have "safePackageName ''a/b@c@d'' = ''a-bc@d''"
    using safePackageName_first_occurrence_only
      [where n = "[]" and pr = "[]" and a = "''a''" and b = "[]" and c = "''b''" and d = "''c@d''"]
    by simp
  moreover have "safePackageName ''a/b/c'' = ''a-b/c''
      \<and> CHR ''/'' \<in> set (changesetFilename ''12'' ''a/b/c'')"
    using safePackageName_first_occurrence_only
      [where n = "''a/b/c''" and pr = "''12''" and a = "''a''" and b = "''b/c''" and c = "[]" and d = "[]"]
    by simp
  moreover have "safePackageName ''@a@b'' = ''a@b''"
    using safePackageName_first_occurrence_only
      [where n = "[]" and pr = "[]" and a = "[]" and b = "''a@b''" and c = "[]" and d = "[]"]
    by simp
  moreover have "safePackageName ''ui'' = ''ui''"
    using safePackageName_first_occurrence_only
      [where n = "''ui''" and pr = "[]" and a = "[]" and b = "[]" and c = "[]" and d = "[]"]
    by simp
  ultimately show ?thesis by simp
qed

subsection \<open>Arguments\<close>

lemma js_split_nonempty: "js_split sep s \<noteq> []"
  by (induction s) (auto split: list.splits)

lemma length_js_split: "length (js_split sep s) = Suc (count_list s sep)"
  by (induction s) (auto split: list.splits)

lemma last_js_split_append: "last (js_split sep (u @ sep # v)) = last (js_split sep v)"
proof (induction u)
  case Nil
  show ?case by (simp add: js_split_nonempty)
next
  case (Cons a u)
  have "length (js_split sep (u @ sep # v)) \<ge> 2"
    by (simp add: length_js_split)
  then obtain w w' ws where "js_split sep (u @ sep # v) = w # w' # ws"
    by (metis One_nat_def Suc_1 Suc_le_length_iff)
  with Cons show ?case by auto
qed

lemma last_js_split_trailing: "last (js_split sep (u @ [sep])) = []"
  by (simp add: last_js_split_append)

text \<open>
  Claim C10. When the URL argument ends with \<^verbatim>\<open>/\<close> and there is no third non-URL
  argument (or it is empty), the PR identifier taken from the URL is the empty string,
  and the run ends with \<^verbatim>\<open>process.exit(1)\<close> without a query and without a write,
  whatever the environment is.
\<close>

theorem trailing_slash_url_is_fatal:
  assumes "arg_prUrl (parseArgs argv) = Some (u @ ''/'')"
    and "\<not> truthy (at (filter (\<lambda>a. \<not> isUrl a) argv) 2)"
  shows "arg_prNumber (parseArgs argv) = Some [] \<and> main e argv fs = (Exit 1, fs)"
proof -
  from assms(1) have url: "orNull (List.find isUrl argv) = Some (u @ ''/'')"
    by (simp add: parseArgs_def Let_def)
  then have "truthy (orNull (List.find isUrl argv))"
    by (simp add: truthy_def)
  with assms(2) url have pr: "arg_prNumber (parseArgs argv) = Some []"
    by (simp add: parseArgs_def Let_def last_js_split_trailing)
  then have "main e argv fs = (Exit 1, fs)"
    by (simp add: main_def Let_def split: option.splits)
  with pr show ?thesis by simp
qed

theorem trailing_slash_url_is_fatal_witness:
  "arg_prUrl (parseArgs [''https://github.com/o/r/pull/12/'', ''feature'', ''origin/main''])
     = Some (''https://github.com/o/r/pull/12'' @ ''/'')
   \<and> \<not> truthy (at (filter (\<lambda>a. \<not> isUrl a) [''https://github.com/o/r/pull/12/'', ''feature'', ''origin/main'']) 2)
   \<and> main failingEnv [''https://github.com/o/r/pull/12/'', ''feature'', ''origin/main''] Map.empty
       = (Exit 1, Map.empty)"
proof -
  have url: "arg_prUrl (parseArgs [''https://github.com/o/r/pull/12/'', ''feature'', ''origin/main''])
     = Some (''https://github.com/o/r/pull/12'' @ ''/'')"
    by code_simp
  have no: "\<not> truthy (at (filter (\<lambda>a. \<not> isUrl a) [''https://github.com/o/r/pull/12/'', ''feature'', ''origin/main'']) 2)"
    by code_simp
  from trailing_slash_url_is_fatal [OF url no] url no show ?thesis by blast
qed

subsection \<open>Degraded queries\<close>

lemma fst_generateAll: "fst (generateAll e url pr pkgs commits fs) = Returned"
  by (simp add: generateAll_def Let_def)

lemma main_analysis:
  assumes "arg_sourceBranch (parseArgs argv) = Some s"
    and "arg_prNumber (parseArgs argv) = Some pr" and "pr \<noteq> []"
    and "getPackages e = Inr pkgs" and "pkgs \<noteq> []"
  shows "main e argv fs =
           generateAll e (arg_prUrl (parseArgs argv)) pr pkgs
             (getCommitsInRange e
                (mergeBaseOf e (targetBranchOf e s (arg_targetArg (parseArgs argv))) s) s) fs"
  using assms by (simp add: main_def Let_def)

text \<open>
  Claim C6. A run with a source branch, a PR identifier and at least one package returns
  normally whatever the queries answer. When the merge base cannot be computed, the
  lower bound of the range is the target branch and the run goes on with the commits of
  that range; when the changed files of a commit cannot be listed, the list is empty.
\<close>

theorem query_degradation_never_aborts:
  assumes "arg_sourceBranch (parseArgs argv) = Some s"
    and "arg_prNumber (parseArgs argv) = Some pr" and "pr \<noteq> []"
    and "getPackages e = Inr pkgs" and "pkgs \<noteq> []"
  shows "fst (main e argv fs) = Returned
     \<and> (git_merge_base e (targetBranchOf e s (arg_targetArg (parseArgs argv))) s = None \<longrightarrow>
          mergeBaseOf e (targetBranchOf e s (arg_targetArg (parseArgs argv))) s
            = targetBranchOf e s (arg_targetArg (parseArgs argv))
          \<and> main e argv fs =
              generateAll e (arg_prUrl (parseArgs argv)) pr pkgs
                (getCommitsInRange e (targetBranchOf e s (arg_targetArg (parseArgs argv))) s) fs)
     \<and> (\<forall>h. git_show e h = None \<longrightarrow> getChangedFilesInCommit e h = [])"
proof -
  note run = main_analysis [OF assms, of fs]
  have "fst (main e argv fs) = Returned"
    by (simp add: run fst_generateAll)
  moreover have "mergeBaseOf e t s = t" if "git_merge_base e t s = None" for t
    using that by (simp add: mergeBaseOf_def)
  moreover have "getChangedFilesInCommit e h = []" if "git_show e h = None" for h
    using that by (simp add: getChangedFilesInCommit_def)
  ultimately show ?thesis
    using run by simp
qed

theorem query_degradation_never_aborts_witness:
  "git_merge_base degradedEnv ''origin/main'' ''feature'' = None
   \<and> git_show degradedEnv ''2222222'' = None
   \<and> fst (main degradedEnv [''https://github.com/o/r/pull/12'', ''feature''] Map.empty) = Returned
   \<and> main degradedEnv [''https://github.com/o/r/pull/12'', ''feature''] Map.empty
       = generateAll degradedEnv (Some ''https://github.com/o/r/pull/12'') ''12''
           [\<lparr>name = ''core'', path = ''packages/core'', directory = ''core''\<rparr>,
            \<lparr>name = ''ui'', path = ''packages/ui'', directory = ''ui''\<rparr>]
           (getCommitsInRange degradedEnv ''origin/main'' ''feature'') Map.empty
   \<and> getChangedFilesInCommit degradedEnv ''2222222'' = []"
proof -
  have a: "parseArgs [''https://github.com/o/r/pull/12'', ''feature'']
         = \<lparr>arg_prUrl = Some ''https://github.com/o/r/pull/12'', arg_sourceBranch = Some ''feature'',
            arg_targetArg = None, arg_prNumber = Some ''12''\<rparr>"
    by code_simp
  have p: "getPackages degradedEnv
         = Inr [\<lparr>name = ''core'', path = ''packages/core'', directory = ''core''\<rparr>,
                \<lparr>name = ''ui'', path = ''packages/ui'', directory = ''ui''\<rparr>]"
    by code_simp
  have t: "targetBranchOf degradedEnv ''feature'' None = ''origin/main''"
    by code_simp
  have m: "git_merge_base degradedEnv ''origin/main'' ''feature'' = None"
    by (simp add: degradedEnv_def)
  have s: "git_show degradedEnv ''2222222'' = None"
    by (simp add: degradedEnv_def)
  from query_degradation_never_aborts
    [of "[''https://github.com/o/r/pull/12'', ''feature'']" "''feature''" "''12''" degradedEnv
        "[\<lparr>name = ''core'', path = ''packages/core'', directory = ''core''\<rparr>,
          \<lparr>name = ''ui'', path = ''packages/ui'', directory = ''ui''\<rparr>]" Map.empty]
  show ?thesis
    by (simp add: a p t m s fst_generateAll)
qed

lemma firstVerified_git_log_update:
  "firstVerified (e\<lparr>git_log := g\<rparr>) cs = firstVerified e cs"
  by (induction cs) auto

lemma getCommitsInRange_empty_output:
  "git_log e (f @ ''..'' @ t) = Some [] \<Longrightarrow> getCommitsInRange e f t = []"
  by (simp add: getCommitsInRange_def trim_def)

text \<open>
  Claim C8. When the query for the commits of the range throws, the list of commits is
  empty, and the run is the run of the same repository with a range that has no commit:
  with a PR identifier and at least one package it returns normally and writes no file.
\<close>

theorem failed_log_query_is_empty_range:
  assumes "arg_sourceBranch (parseArgs argv) = Some s"
    and "git_log e (mergeBaseOf e (targetBranchOf e s (arg_targetArg (parseArgs argv))) s @ ''..'' @ s) = None"
  shows "getCommitsInRange e (mergeBaseOf e (targetBranchOf e s (arg_targetArg (parseArgs argv))) s) s = []
     \<and> main e argv fs = main (e\<lparr>git_log := \<lambda>r. Some []\<rparr>) argv fs
     \<and> (truthy (arg_prNumber (parseArgs argv)) \<and> (\<exists>pkgs. getPackages e = Inr pkgs \<and> pkgs \<noteq> [])
          \<longrightarrow> main e argv fs = (Returned, fs))"
proof -
  let ?t = "targetBranchOf e s (arg_targetArg (parseArgs argv))"
  let ?e' = "e\<lparr>git_log := \<lambda>r. Some []\<rparr>"
  have none: "getCommitsInRange e (mergeBaseOf e ?t s) s = []"
    using assms(2) by (simp add: getCommitsInRange_def)
  have same_t: "targetBranchOf ?e' s v = targetBranchOf e s v" for v
    by (simp add: targetBranchOf_def getDefaultBaseRef_def Let_def firstVerified_git_log_update)
  have same_m: "mergeBaseOf ?e' t s = mergeBaseOf e t s" for t
    by (simp add: mergeBaseOf_def)
  have same_p: "getPackages ?e' = getPackages e"
    by (simp add: getPackages_def)
  have none': "getCommitsInRange ?e' f s = []" for f
    by (rule getCommitsInRange_empty_output) simp
  have gen: "generateAll e1 url pr pkgs [] fs = (Returned, fs)" for e1 url pr pkgs
    by (simp add: generateAll_def)
  have eq: "main e argv fs = main ?e' argv fs"
    using assms(1) by (simp add: main_def Let_def same_t same_m same_p none none' gen
        split: option.splits sum.splits)
  have "main e argv fs = (Returned, fs)"
    if "truthy (arg_prNumber (parseArgs argv))" and "getPackages e = Inr pkgs" and "pkgs \<noteq> []" for pkgs
    using that assms(1) by (auto simp: main_def Let_def none gen truthy_def split: option.splits)
  with none eq show ?thesis by blast
qed

theorem failed_log_query_is_empty_range_witness:
  "arg_sourceBranch (parseArgs [''feature'', ''origin/main'', ''12'']) = Some ''feature''
   \<and> git_log (degradedEnv\<lparr>git_log := \<lambda>r. None\<rparr>) (''origin/main'' @ ''..'' @ ''feature'') = None
   \<and> main (degradedEnv\<lparr>git_log := \<lambda>r. None\<rparr>) [''feature'', ''origin/main'', ''12''] Map.empty
       = (Returned, Map.empty)
   \<and> main (degradedEnv\<lparr>git_log := \<lambda>r. Some []\<rparr>) [''feature'', ''origin/main'', ''12''] Map.empty
       = (Returned, Map.empty)"
proof -
  let ?e = "degradedEnv\<lparr>git_log := \<lambda>r. None\<rparr>"
  have a: "parseArgs [''feature'', ''origin/main'', ''12'']
         = \<lparr>arg_prUrl = None, arg_sourceBranch = Some ''feature'',
            arg_targetArg = Some ''origin/main'', arg_prNumber = Some ''12''\<rparr>"
    by code_simp
  have p: "getPackages ?e
         = Inr [\<lparr>name = ''core'', path = ''packages/core'', directory = ''core''\<rparr>,
                \<lparr>name = ''ui'', path = ''packages/ui'', directory = ''ui''\<rparr>]"
    by code_simp
  have t: "targetBranchOf ?e ''feature'' (Some ''origin/main'') = ''origin/main''"
    by code_simp
  have m: "mergeBaseOf ?e ''origin/main'' ''feature'' = ''origin/main''"
    by code_simp
  from failed_log_query_is_empty_range
    [of "[''feature'', ''origin/main'', ''12'']" "''feature''" ?e Map.empty]
  show ?thesis
    by (auto simp: a p t m truthy_def)
qed

subsection \<open>Attribution\<close>

lemma map_fst_map_entry: "map fst (AList.map_entry k f xs) = map fst xs"
  by (induction xs) auto

lemma map_fst_attributeToPackage:
  "map fst (attributeToPackage h m fs p obj) = map fst obj"
  by (simp add: attributeToPackage_def Let_def map_fst_map_entry)

lemma map_fst_attributeCommit: "map fst (attributeCommit e pkgs l obj) = map fst obj"
proof -
  have "map fst (fold (attributeToPackage h m fs) pkgs obj) = map fst obj" for h m fs
    by (induction pkgs arbitrary: obj) (simp_all add: map_fst_attributeToPackage)
  then show ?thesis
    by (simp add: attributeCommit_def Let_def)
qed

lemma map_fst_fold_attributeCommit:
  "map fst (fold (attributeCommit e pkgs) commits obj) = map fst obj"
  by (induction commits arbitrary: obj) (simp_all add: map_fst_attributeCommit)

lemma attributeToPackage_lookup:
  "map_of (attributeToPackage (commitHashOf l) (messageOf l)
             (getChangedFilesInCommit e (commitHashOf l)) p obj) k
   = map_option (\<lambda>cs. cs @ map (attributionOf e l) (filter (\<lambda>q. name q = k \<and> attributed e l q) [p]))
       (map_of obj k)"
  by (cases "map_of obj k")
    (auto simp: attributeToPackage_def Let_def map_of_map_entry attributed_def attributionOf_def
      matchedFiles_def startsWith_prefix list_ex_iff filter_empty_conv)

lemma attributeCommit_lookup:
  "map_of (attributeCommit e pkgs l obj) k
   = map_option (\<lambda>cs. cs @ map (attributionOf e l) (filter (\<lambda>q. name q = k \<and> attributed e l q) pkgs))
       (map_of obj k)"
proof -
  have "map_of (fold (attributeToPackage (commitHashOf l) (messageOf l)
                  (getChangedFilesInCommit e (commitHashOf l))) ps obj) k
        = map_option (\<lambda>cs. cs @ map (attributionOf e l) (filter (\<lambda>q. name q = k \<and> attributed e l q) ps))
            (map_of obj k)" for ps
  proof (induction ps arbitrary: obj)
    case Nil
    show ?case by (simp add: option.map_ident)
  next
    case (Cons p ps)
    show ?case
      by (simp add: Cons.IH attributeToPackage_lookup option.map_comp comp_def)
  qed
  then show ?thesis
    by (simp add: attributeCommit_def Let_def)
qed

lemma fold_attributeCommit_lookup:
  "map_of (fold (attributeCommit e pkgs) commits obj) k
   = map_option
       (\<lambda>cs. cs @ concat (map (\<lambda>l. map (attributionOf e l)
                                      (filter (\<lambda>q. name q = k \<and> attributed e l q) pkgs)) commits))
       (map_of obj k)"
proof (induction commits arbitrary: obj)
  case Nil
  show ?case by (simp add: option.map_ident)
next
  case (Cons l commits)
  show ?case
    by (simp add: Cons.IH attributeCommit_lookup option.map_comp comp_def)
qed

lemma initial_lookup:
  "map_of (fold (\<lambda>pkg. AList.update (name pkg) []) pkgs al) k
   = (if k \<in> name ` set pkgs then Some [] else map_of al k)"
  by (induction pkgs arbitrary: al) (auto simp: update_conv')

lemma initial_distinct:
  "distinct (map fst al) \<Longrightarrow> distinct (map fst (fold (\<lambda>pkg. AList.update (name pkg) []) pkgs al))"
  by (induction pkgs arbitrary: al) (simp_all add: distinct_update)

lemma set_objectKeys: "set (objectKeys obj) = fst ` set obj"
  by (auto simp: objectKeys_def Let_def)

lemma deleteIfEmpty_filter:
  assumes "distinct (map fst obj)"
  shows "deleteIfEmpty k obj = filter (\<lambda>(k', cs). \<not> (k' = k \<and> cs = [])) obj"
proof (cases "map_of obj k")
  case None
  then have "k \<notin> fst ` set obj"
    by (simp add: map_of_eq_None_iff)
  then have "filter (\<lambda>(k', cs). \<not> (k' = k \<and> cs = [])) obj = obj"
    by (force simp: filter_id_conv)
  with None show ?thesis
    by (simp add: deleteIfEmpty_def)
next
  case (Some cs)
  have uniq: "cs' = cs" if "(k, cs') \<in> set obj" for cs'
    using that assms Some by simp
  show ?thesis
  proof (cases "cs = []")
    case True
    have "filter (\<lambda>(k', cs). \<not> (k' = k \<and> cs = [])) obj = filter (\<lambda>(k', uu). k \<noteq> k') obj"
      by (rule filter_cong) (auto dest: uniq simp: True)
    with Some True show ?thesis
      by (simp add: deleteIfEmpty_def AList.delete_eq)
  next
    case False
    have "filter (\<lambda>(k', cs). \<not> (k' = k \<and> cs = [])) obj = obj"
      using False by (auto simp: filter_id_conv dest: uniq)
    with Some False show ?thesis
      by (simp add: deleteIfEmpty_def)
  qed
qed

lemma fold_deleteIfEmpty:
  "distinct (map fst obj) \<Longrightarrow>
   fold deleteIfEmpty ks obj = filter (\<lambda>(k, cs). \<not> (k \<in> set ks \<and> cs = [])) obj"
proof (induction ks arbitrary: obj)
  case Nil
  show ?case by simp
next
  case (Cons k ks)
  let ?obj = "filter (\<lambda>(k', cs). \<not> (k' = k \<and> cs = [])) obj"
  have d: "distinct (map fst ?obj)"
    using Cons.prems by (simp add: distinct_map_filter)
  have "fold deleteIfEmpty (k # ks) obj = fold deleteIfEmpty ks ?obj"
    by (simp add: deleteIfEmpty_filter [OF Cons.prems])
  also have "\<dots> = filter (\<lambda>(k, cs). \<not> (k \<in> set ks \<and> cs = [])) ?obj"
    by (rule Cons.IH [OF d])
  also have "\<dots> = filter (\<lambda>(k', cs). \<not> (k' \<in> set (k # ks) \<and> cs = [])) obj"
    by (auto intro: filter_cong)
  finally show ?case .
qed

lemma prune_all:
  "distinct (map fst obj) \<Longrightarrow>
   fold deleteIfEmpty (objectKeys obj) obj = filter (\<lambda>(k, cs). cs \<noteq> []) obj"
  by (simp add: fold_deleteIfEmpty set_objectKeys) (auto intro!: filter_cong simp: rev_image_eqI)

lemma filled_distinct:
  "distinct (map fst (fold (attributeCommit e pkgs) commits
      (fold (\<lambda>pkg. AList.update (name pkg) []) pkgs [])))"
  by (simp add: map_fst_fold_attributeCommit initial_distinct)

lemma categorize_filter:
  "categorizeCommitsByPackage e commits pkgs
   = filter (\<lambda>(k, cs). cs \<noteq> [])
       (fold (attributeCommit e pkgs) commits (fold (\<lambda>pkg. AList.update (name pkg) []) pkgs []))"
  by (simp add: categorizeCommitsByPackage_def Let_def prune_all filled_distinct)

lemma categorize_distinct: "distinct (map fst (categorizeCommitsByPackage e commits pkgs))"
  by (simp add: categorize_filter distinct_map_filter filled_distinct)

lemma categorize_nonempty:
  "(k, cs) \<in> set (categorizeCommitsByPackage e commits pkgs) \<Longrightarrow> cs \<noteq> []"
  by (simp add: categorize_filter)

lemma recorded_filter:
  assumes "distinct (map fst obj)"
  shows "recorded (filter (\<lambda>(k, cs). cs \<noteq> []) obj) k = recorded obj k"
proof (cases "map_of obj k")
  case None
  then have "map_of (filter (\<lambda>(k, cs). cs \<noteq> []) obj) k = None"
    by (force simp: map_of_eq_None_iff)
  with None show ?thesis by (simp add: recorded_def)
next
  case (Some cs)
  with assms have in_obj: "(k, cs) \<in> set obj" by simp
  have d: "distinct (map fst (filter (\<lambda>(k, cs). cs \<noteq> []) obj))"
    using assms by (simp add: distinct_map_filter)
  show ?thesis
  proof (cases "cs = []")
    case True
    have "map_of (filter (\<lambda>(k, cs). cs \<noteq> []) obj) k = None"
    proof (rule ccontr)
      assume "map_of (filter (\<lambda>(k, cs). cs \<noteq> []) obj) k \<noteq> None"
      then obtain cs' where "map_of (filter (\<lambda>(k, cs). cs \<noteq> []) obj) k = Some cs'" by auto
      with d have "(k, cs') \<in> set obj" and "cs' \<noteq> []" by auto
      with assms Some True show False by simp
    qed
    with Some True show ?thesis by (simp add: recorded_def)
  next
    case False
    with in_obj have "(k, cs) \<in> set (filter (\<lambda>(k, cs). cs \<noteq> []) obj)" by simp
    with d have "map_of (filter (\<lambda>(k, cs). cs \<noteq> []) obj) k = Some cs" by simp
    with Some show ?thesis by (simp add: recorded_def)
  qed
qed

lemma recorded_categorize:
  "recorded (categorizeCommitsByPackage e commits pkgs) k
   = concat (map (\<lambda>l. map (attributionOf e l)
                         (filter (\<lambda>q. name q = k \<and> attributed e l q) pkgs)) commits)"
proof (cases "k \<in> name ` set pkgs")
  case True
  then show ?thesis
    by (simp add: categorize_filter recorded_filter filled_distinct)
      (simp add: recorded_def fold_attributeCommit_lookup initial_lookup)
next
  case False
  then have "filter (\<lambda>q. name q = k \<and> attributed e l q) pkgs = []" for l
    by (auto simp: filter_empty_conv)
  with False show ?thesis
    by (simp add: categorize_filter recorded_filter filled_distinct)
      (simp add: recorded_def fold_attributeCommit_lookup initial_lookup)
qed

lemma filter_unique_name:
  assumes "distinct (map name pkgs)" and "pkg \<in> set pkgs"
  shows "filter (\<lambda>q. name q = name pkg \<and> P q) pkgs = (if P pkg then [pkg] else [])"
  using assms
proof (induction pkgs)
  case Nil
  then show ?case by simp
next
  case (Cons q pkgs)
  show ?case
  proof (cases "q = pkg")
    case True
    with Cons.prems have "name pkg \<notin> name ` set pkgs" by simp
    then have "\<forall>x \<in> set pkgs. name x \<noteq> name pkg" by (metis imageI)
    then have "filter (\<lambda>q. name q = name pkg \<and> P q) pkgs = []"
      by (auto simp: filter_empty_conv)
    with True show ?thesis by simp
  next
    case False
    with Cons.prems have "pkg \<in> set pkgs" and "distinct (map name pkgs)"
      by simp_all
    moreover from this Cons.prems have "name q \<noteq> name pkg"
      by (metis distinct.simps(2) imageI list.simps(9) set_map)
    ultimately have "pkg \<in> set pkgs" and "distinct (map name pkgs)" and "name q \<noteq> name pkg"
      by simp_all
    with Cons.IH show ?thesis by simp
  qed
qed

lemma recorded_package:
  assumes "distinct (map name pkgs)" and "pkg \<in> set pkgs"
  shows "recorded (categorizeCommitsByPackage e commits pkgs) (name pkg)
         = map (\<lambda>l. attributionOf e l pkg) (filter (\<lambda>l. attributed e l pkg) commits)"
proof -
  have "concat (map (\<lambda>l. map (attributionOf e l) (if attributed e l pkg then [pkg] else [])) cs)
        = map (\<lambda>l. attributionOf e l pkg) (filter (\<lambda>l. attributed e l pkg) cs)" for cs
    by (induction cs) simp_all
  then show ?thesis
    by (simp add: recorded_categorize filter_unique_name [OF assms])
qed

text \<open>
  Claim C3. With package names that are unique, the entries recorded under a package are
  exactly one entry for each commit of the log that has a changed file under the root
  path of the package followed by \<^verbatim>\<open>/\<close>, in the order of the log; every file of such
  an entry starts with that root path and \<^verbatim>\<open>/\<close>; and a commit hash occurs among the
  entries at most as often as in the log, however many of its files match.
\<close>

theorem attribution_path_prefix:
  assumes "distinct (map name pkgs)" and "pkg \<in> set pkgs"
  shows "recorded (categorizeCommitsByPackage e commits pkgs) (name pkg)
           = map (\<lambda>l. attributionOf e l pkg) (filter (\<lambda>l. attributed e l pkg) commits)
     \<and> (\<forall>c \<in> set (recorded (categorizeCommitsByPackage e commits pkgs) (name pkg)).
           \<forall>file \<in> set (files c). startsWith file (path pkg @ ''/''))
     \<and> (\<forall>h. count_list (map hash (recorded (categorizeCommitsByPackage e commits pkgs) (name pkg))) h
            \<le> count_list (map commitHashOf commits) h)"
proof -
  note rec = recorded_package [OF assms, of e commits]
  have pre: "\<forall>c \<in> set (recorded (categorizeCommitsByPackage e commits pkgs) (name pkg)).
           \<forall>file \<in> set (files c). startsWith file (path pkg @ ''/'')"
    by (auto simp: rec attributionOf_def matchedFiles_def startsWith_prefix)
  have "count_list (map hash (map (\<lambda>l. attributionOf e l pkg) (filter (\<lambda>l. attributed e l pkg) cs))) h
        \<le> count_list (map commitHashOf cs) h" for cs h
    by (induction cs) (auto simp: attributionOf_def)
  with rec pre show ?thesis by simp
qed

theorem attribution_path_prefix_witness:
  "distinct (map name samplePackages)
   \<and> \<lparr>name = ''ui'', path = ''packages/ui'', directory = ''ui''\<rparr> \<in> set samplePackages
   \<and> recorded (categorizeCommitsByPackage sampleEnv sampleLog samplePackages) ''ui''
       = [\<lparr>hash = ''aaaaaaa1'', message = ''feat: add button'',
           files = [''packages/ui/src/Button.ts'', ''packages/ui/src/index.ts'']\<rparr>,
          \<lparr>hash = ''ccccccc3'', message = ''fix: shared types'', files = [''packages/ui/src/y.ts'']\<rparr>]
   \<and> list_all (\<lambda>c. list_all (\<lambda>file. startsWith file ''packages/ui/'') (files c))
         (recorded (categorizeCommitsByPackage sampleEnv sampleLog samplePackages) ''ui'')"
proof -
  have d: "distinct (map name samplePackages)"
    by code_simp
  have m: "\<lparr>name = ''ui'', path = ''packages/ui'', directory = ''ui''\<rparr> \<in> set samplePackages"
    by code_simp
  have v: "map (\<lambda>l. attributionOf sampleEnv l \<lparr>name = ''ui'', path = ''packages/ui'', directory = ''ui''\<rparr>)
             (filter (\<lambda>l. attributed sampleEnv l \<lparr>name = ''ui'', path = ''packages/ui'', directory = ''ui''\<rparr>)
                sampleLog)
       = [\<lparr>hash = ''aaaaaaa1'', message = ''feat: add button'',
           files = [''packages/ui/src/Button.ts'', ''packages/ui/src/index.ts'']\<rparr>,
          \<lparr>hash = ''ccccccc3'', message = ''fix: shared types'', files = [''packages/ui/src/y.ts'']\<rparr>]"
    by code_simp
  from attribution_path_prefix [OF d m, of sampleEnv sampleLog] d m v show ?thesis
    by (simp add: list_all_iff)
qed

lemma recorded_member:
  "(k, cs) \<in> set (categorizeCommitsByPackage e commits pkgs) \<Longrightarrow>
   recorded (categorizeCommitsByPackage e commits pkgs) k = cs"
  using categorize_distinct [of e commits pkgs] by (simp add: recorded_def)

lemma recorded_origin:
  assumes "x \<in> set (recorded (categorizeCommitsByPackage e commits pkgs) k)"
  shows "\<exists>l \<in> set commits. \<exists>q \<in> set pkgs. name q = k \<and> attributed e l q \<and> x = attributionOf e l q"
  using assms by (auto simp: recorded_categorize)

lemma attributeCommit_outside:
  assumes "\<forall>pkg \<in> set pkgs. \<forall>file \<in> set (getChangedFilesInCommit e (commitHashOf c)).
             \<not> startsWith file (path pkg @ ''/'')"
  shows "attributeCommit e pkgs c obj = obj"
proof -
  have "fold (attributeToPackage h m (getChangedFilesInCommit e (commitHashOf c))) ps obj = obj"
    if "set ps \<subseteq> set pkgs" for ps h m
    using that
  proof (induction ps arbitrary: obj)
    case Nil
    show ?case by simp
  next
    case (Cons p ps)
    with assms have "attributeToPackage h m (getChangedFilesInCommit e (commitHashOf c)) p obj = obj"
      by (simp add: attributeToPackage_def Let_def list_ex_iff)
    with Cons show ?case by simp
  qed
  then show ?thesis
    by (simp add: attributeCommit_def Let_def)
qed

lemma categorize_outside:
  assumes "\<forall>pkg \<in> set pkgs. \<forall>file \<in> set (getChangedFilesInCommit e (commitHashOf c)).
             \<not> startsWith file (path pkg @ ''/'')"
  shows "categorizeCommitsByPackage e (xs @ c # ys) pkgs = categorizeCommitsByPackage e (xs @ ys) pkgs"
  by (simp add: categorizeCommitsByPackage_def attributeCommit_outside [OF assms])

lemma categorize_no_commits: "categorizeCommitsByPackage e [] pkgs = []"
proof (rule ccontr)
  assume "categorizeCommitsByPackage e [] pkgs \<noteq> []"
  then obtain k cs where in_result: "(k, cs) \<in> set (categorizeCommitsByPackage e [] pkgs)"
    by (cases "categorizeCommitsByPackage e [] pkgs") auto
  then have "cs \<noteq> []" by (rule categorize_nonempty)
  moreover from in_result have "recorded (categorizeCommitsByPackage e [] pkgs) k = cs"
    by (rule recorded_member)
  ultimately show False by (simp add: recorded_categorize)
qed

lemma fst_objectEntries: "fst ` set (objectEntries obj) \<subseteq> set (objectKeys obj)"
  by (auto simp: objectEntries_def map_filter_def)

lemma generateAll_same_attribution:
  assumes "cs1 \<noteq> []" and "cs2 \<noteq> []"
    and "categorizeCommitsByPackage e cs1 pkgs = categorizeCommitsByPackage e cs2 pkgs"
  shows "generateAll e url pr pkgs cs1 fs = generateAll e url pr pkgs cs2 fs"
  using assms by (simp add: generateAll_def)

lemma generateAll_no_attribution:
  assumes "categorizeCommitsByPackage e cs pkgs = []"
  shows "generateAll e url pr pkgs cs fs = (Returned, fs)"
  using assms by (simp add: generateAll_def objectKeys_def)

lemma no_changeset_without_commit:
  assumes unattributed: "\<forall>l \<in> set commits. \<forall>q \<in> set pkgs. name q = k \<longrightarrow> \<not> attributed e l q"
  shows "k \<notin> fst ` set (objectEntries (categorizeCommitsByPackage e commits pkgs))"
proof
  assume "k \<in> fst ` set (objectEntries (categorizeCommitsByPackage e commits pkgs))"
  with fst_objectEntries have "k \<in> fst ` set (categorizeCommitsByPackage e commits pkgs)"
    unfolding set_objectKeys [symmetric] by blast
  then obtain cs where in_result: "(k, cs) \<in> set (categorizeCommitsByPackage e commits pkgs)"
    by auto
  then have "cs \<noteq> []" by (rule categorize_nonempty)
  moreover from in_result have "recorded (categorizeCommitsByPackage e commits pkgs) k = cs"
    by (rule recorded_member)
  moreover have "filter (\<lambda>q. name q = k \<and> attributed e l q) pkgs = []" if "l \<in> set commits" for l
    using unattributed that by (simp add: filter_empty_conv)
  then have "concat (map (\<lambda>l. map (attributionOf e l)
                 (filter (\<lambda>q. name q = k \<and> attributed e l q) pkgs)) commits) = []"
    by simp
  ultimately show False
    by (simp add: recorded_categorize)
qed

text \<open>
  Claim C4. A commit whose changed files all lie outside the root path of every package
  is recorded under no package, and the attribution and the files written are those of
  the log without that commit. A package name under which no commit of the log is
  attributed is not among the entries for which a changeset is written.
\<close>

theorem no_cross_talk:
  "((\<forall>pkg \<in> set pkgs. \<forall>file \<in> set (getChangedFilesInCommit e (commitHashOf c)).
        \<not> startsWith file (path pkg @ ''/''))
    \<longrightarrow> (\<forall>(k, cs) \<in> set (categorizeCommitsByPackage e (xs @ c # ys) pkgs).
            \<forall>x \<in> set cs. hash x \<noteq> commitHashOf c)
        \<and> categorizeCommitsByPackage e (xs @ c # ys) pkgs = categorizeCommitsByPackage e (xs @ ys) pkgs
        \<and> generateAll e url pr pkgs (xs @ c # ys) fs = generateAll e url pr pkgs (xs @ ys) fs)
   \<and> ((\<forall>l \<in> set commits. \<forall>q \<in> set pkgs. name q = k \<longrightarrow> \<not> attributed e l q)
        \<longrightarrow> k \<notin> fst ` set (objectEntries (categorizeCommitsByPackage e commits pkgs)))"
proof -
  have first: "(\<forall>(k, cs) \<in> set (categorizeCommitsByPackage e (xs @ c # ys) pkgs).
            \<forall>x \<in> set cs. hash x \<noteq> commitHashOf c)
        \<and> categorizeCommitsByPackage e (xs @ c # ys) pkgs = categorizeCommitsByPackage e (xs @ ys) pkgs
        \<and> generateAll e url pr pkgs (xs @ c # ys) fs = generateAll e url pr pkgs (xs @ ys) fs"
    if outside: "\<forall>pkg \<in> set pkgs. \<forall>file \<in> set (getChangedFilesInCommit e (commitHashOf c)).
        \<not> startsWith file (path pkg @ ''/'')"
  proof -
    have none: "\<not> attributed e l q" if "q \<in> set pkgs" and "commitHashOf l = commitHashOf c" for l q
      using that outside by (auto simp: attributed_def matchedFiles_def startsWith_prefix filter_empty_conv)
    have zero: "hash x \<noteq> commitHashOf c"
      if "(k, cs) \<in> set (categorizeCommitsByPackage e (xs @ c # ys) pkgs)" and "x \<in> set cs" for k cs x
    proof -
      from that have "x \<in> set (recorded (categorizeCommitsByPackage e (xs @ c # ys) pkgs) k)"
        by (simp add: recorded_member)
      then obtain l q where "q \<in> set pkgs" and "attributed e l q" and "x = attributionOf e l q"
        using recorded_origin by blast
      with none [of q l] show ?thesis
        by (auto simp: attributionOf_def)
    qed
    have same: "categorizeCommitsByPackage e (xs @ c # ys) pkgs = categorizeCommitsByPackage e (xs @ ys) pkgs"
      by (rule categorize_outside [OF outside])
    have "generateAll e url pr pkgs (xs @ c # ys) fs = generateAll e url pr pkgs (xs @ ys) fs"
    proof (cases "xs @ ys = []")
      case True
      with same have "categorizeCommitsByPackage e (xs @ c # ys) pkgs = []"
        by (simp add: categorize_no_commits)
      then have "generateAll e url pr pkgs (xs @ c # ys) fs = (Returned, fs)"
        by (rule generateAll_no_attribution)
      moreover have "generateAll e url pr pkgs [] fs = (Returned, fs)"
        by (rule generateAll_no_attribution [OF categorize_no_commits])
      ultimately show ?thesis
        using True by simp
    next
      case False
      moreover have "xs @ c # ys \<noteq> []" by simp
      ultimately show ?thesis
        using same by (intro generateAll_same_attribution)
    qed
    with zero same show ?thesis by blast
  qed
  have second: "k \<notin> fst ` set (objectEntries (categorizeCommitsByPackage e commits pkgs))"
    if "\<forall>l \<in> set commits. \<forall>q \<in> set pkgs. name q = k \<longrightarrow> \<not> attributed e l q"
    using that by (rule no_changeset_without_commit)
  from first second show ?thesis by blast
qed

theorem no_cross_talk_witness:
  "list_all (\<lambda>pkg. list_all (\<lambda>file. \<not> startsWith file (path pkg @ ''/''))
                      (getChangedFilesInCommit sampleEnv (commitHashOf ''bbbbbbb2 chore: bump ci'')))
     samplePackages
   \<and> categorizeCommitsByPackage sampleEnv
         ([''aaaaaaa1 feat: add button''] @ ''bbbbbbb2 chore: bump ci'' # [''ccccccc3 fix: shared types''])
         samplePackages
       = categorizeCommitsByPackage sampleEnv
           ([''aaaaaaa1 feat: add button''] @ [''ccccccc3 fix: shared types'']) samplePackages
   \<and> list_all (\<lambda>l. list_all (\<lambda>q. \<not> (name q = ''@scope/eslint'' \<and> attributed sampleEnv l q))
                        samplePackages) sampleLog
   \<and> ''@scope/eslint'' \<notin> fst ` set (objectEntries (categorizeCommitsByPackage sampleEnv sampleLog samplePackages))"
proof -
  have outside: "list_all (\<lambda>pkg. list_all (\<lambda>file. \<not> startsWith file (path pkg @ ''/''))
                      (getChangedFilesInCommit sampleEnv (commitHashOf ''bbbbbbb2 chore: bump ci'')))
     samplePackages"
    by code_simp
  have untouched: "list_all (\<lambda>l. list_all (\<lambda>q. \<not> (name q = ''@scope/eslint'' \<and> attributed sampleEnv l q))
                        samplePackages) sampleLog"
    by code_simp
  from no_cross_talk [of samplePackages sampleEnv "''bbbbbbb2 chore: bump ci''"
      "[''aaaaaaa1 feat: add button'']" "[''ccccccc3 fix: shared types'']" None "''12''" Map.empty
      sampleLog "''@scope/eslint''"]
    outside untouched
  show ?thesis
    unfolding list_all_iff by blast
qed

subsection \<open>Writing the files\<close>

lemma map_add_twice: "(m ++ w) ++ w = m ++ (w :: 'a \<rightharpoonup> 'b)"
  by (rule ext) (simp add: map_add_def split: option.splits)

lemma writeChangeset_adds:
  "\<exists>W. \<forall>fs. writeChangeset e url pr entry fs = fs ++ W"
proof (cases entry)
  case (Pair k cs)
  show ?thesis
  proof (cases "writable e (changesetPath pr k)")
    case True
    have "\<forall>fs. writeChangeset e url pr entry fs
            = fs ++ [changesetPath pr k \<mapsto> generateChangeset k cs url]"
      by (simp add: writeChangeset_def Pair True Let_def)
    then show ?thesis by blast
  next
    case False
    have "\<forall>fs. writeChangeset e url pr entry fs = fs ++ Map.empty"
      by (simp add: writeChangeset_def Pair False Let_def)
    then show ?thesis by blast
  qed
qed

lemma fold_writeChangeset_adds:
  "\<exists>W. \<forall>fs. fold (writeChangeset e url pr) entries fs = fs ++ W"
proof (induction entries)
  case Nil
  have "\<forall>fs. fold (writeChangeset e url pr) [] fs = fs ++ Map.empty" by simp
  then show ?case by blast
next
  case (Cons x entries)
  from Cons.IH obtain W where W: "\<And>fs. fold (writeChangeset e url pr) entries fs = fs ++ W"
    by blast
  from writeChangeset_adds obtain V where V: "\<And>fs. writeChangeset e url pr x fs = fs ++ V"
    by blast
  have "\<forall>fs. fold (writeChangeset e url pr) (x # entries) fs = fs ++ (V ++ W)"
    by (simp add: W V)
  then show ?case by blast
qed

lemma generateAll_adds:
  "\<exists>W. \<forall>fs. generateAll e url pr pkgs commits fs = (Returned, fs ++ W)"
proof -
  from fold_writeChangeset_adds
  obtain W where W: "\<And>fs. fold (writeChangeset e url pr)
      (objectEntries (categorizeCommitsByPackage e commits pkgs)) fs = fs ++ W"
    by blast
  show ?thesis
  proof (cases "length commits = 0 \<or> length (objectKeys (categorizeCommitsByPackage e commits pkgs)) = 0")
    case True
    then have "\<forall>fs. generateAll e url pr pkgs commits fs = (Returned, fs ++ Map.empty)"
      by (auto simp: generateAll_def Let_def)
    then show ?thesis by blast
  next
    case False
    then have "\<forall>fs. generateAll e url pr pkgs commits fs = (Returned, fs ++ W)"
      by (simp add: generateAll_def Let_def W)
    then show ?thesis by blast
  qed
qed

lemma main_cases:
  "(\<exists>c. \<forall>fs. main e argv fs = (c, fs))
   \<or> (\<exists>url pr pkgs commits. \<forall>fs. main e argv fs = generateAll e url pr pkgs commits fs)"
proof (cases "arg_sourceBranch (parseArgs argv)")
  case None
  then have "\<forall>fs. main e argv fs = (Exit 1, fs)"
    by (simp add: main_def Let_def)
  then show ?thesis by blast
next
  case src: (Some s)
  show ?thesis
  proof (cases "arg_prNumber (parseArgs argv)")
    case None
    with src have "\<forall>fs. main e argv fs = (Exit 1, fs)"
      by (simp add: main_def Let_def)
    then show ?thesis by blast
  next
    case pr: (Some n)
    show ?thesis
    proof (cases "n = []")
      case True
      with src pr have "\<forall>fs. main e argv fs = (Exit 1, fs)"
        by (simp add: main_def Let_def)
      then show ?thesis by blast
    next
      case nonempty: False
      show ?thesis
      proof (cases "getPackages e")
        case (Inl exn)
        with src pr nonempty have "\<forall>fs. main e argv fs = (Uncaught, fs)"
          by (simp add: main_def Let_def)
        then show ?thesis by blast
      next
        case (Inr pkgs)
        show ?thesis
        proof (cases "pkgs = []")
          case True
          with src pr nonempty Inr have "\<forall>fs. main e argv fs = (Exit 1, fs)"
            by (simp add: main_def Let_def)
          then show ?thesis by blast
        next
          case False
          from main_analysis [OF src pr nonempty Inr False]
          show ?thesis by blast
        qed
      qed
    qed
  qed
qed

lemma main_adds: "\<exists>out W. \<forall>fs. main e argv fs = (out, fs ++ W)"
proof -
  from main_cases [of e argv] show ?thesis
  proof
    assume "\<exists>c. \<forall>fs. main e argv fs = (c, fs)"
    then obtain c where "\<forall>fs. main e argv fs = (c, fs ++ Map.empty)"
      by auto
    then show ?thesis by blast
  next
    assume "\<exists>url pr pkgs commits. \<forall>fs. main e argv fs = generateAll e url pr pkgs commits fs"
    then obtain url pr pkgs commits
      where run: "\<And>fs. main e argv fs = generateAll e url pr pkgs commits fs"
      by blast
    from generateAll_adds obtain W
      where "\<And>fs. generateAll e url pr pkgs commits fs = (Returned, fs ++ W)"
      by blast
    with run have "\<forall>fs. main e argv fs = (Returned, fs ++ W)"
      by simp
    then show ?thesis by blast
  qed
qed

text \<open>
  Claim C5. A run adds to the file system a set of files that does not depend on what
  the file system held before, so a second run on the result of the first changes
  nothing: it ends the same way and leaves every file with the same content. The path
  of the file of a package depends on the PR identifier and the sanitized name only.
\<close>

theorem rerun_overwrites_identically:
  "(\<exists>out W. \<forall>fs. main e argv fs = (out, fs ++ W))
   \<and> main e argv (snd (main e argv fs)) = main e argv fs
   \<and> (safePackageName k = safePackageName k' \<longrightarrow> changesetPath pr k = changesetPath pr k')"
proof -
  from main_adds obtain out W where run: "\<And>fs. main e argv fs = (out, fs ++ W)"
    by blast
  have "main e argv (snd (main e argv fs)) = main e argv fs"
    by (simp add: run map_add_twice)
  moreover have "changesetPath pr k = changesetPath pr k'" if "safePackageName k = safePackageName k'"
    using that by (simp add: changesetPath_def changesetFilename_def)
  ultimately show ?thesis
    using run by blast
qed

theorem rerun_overwrites_identically_witness:
  "main sampleEnv [''https://github.com/o/r/pull/12'', ''feature'']
     (snd (main sampleEnv [''https://github.com/o/r/pull/12'', ''feature''] Map.empty))
   = main sampleEnv [''https://github.com/o/r/pull/12'', ''feature''] Map.empty
   \<and> fst (main sampleEnv [''https://github.com/o/r/pull/12'', ''feature''] Map.empty) = Returned
   \<and> safePackageName ''@scope/eslint'' = safePackageName ''scope-eslint''
   \<and> changesetPath ''12'' ''@scope/eslint'' = changesetPath ''12'' ''scope-eslint''"
proof -
  have s: "safePackageName ''@scope/eslint'' = safePackageName ''scope-eslint''"
    by code_simp
  have r: "fst (main sampleEnv [''https://github.com/o/r/pull/12'', ''feature''] Map.empty) = Returned"
    by code_simp
  from rerun_overwrites_identically
    [of sampleEnv "[''https://github.com/o/r/pull/12'', ''feature'']" Map.empty
        "''@scope/eslint''" "''scope-eslint''" "''12''"] s r
  show ?thesis by blast
qed

subsection \<open>The scenario of the specification\<close>

lemma js_split_first:
  "sep \<notin> set h \<Longrightarrow> js_split sep (h @ sep # m) = h # js_split sep m"
  by (induction h) auto

lemma js_join_js_split: "js_join sep (js_split sep s) = s"
proof (induction s)
  case Nil
  show ?case by simp
next
  case (Cons c s)
  obtain w ws where parts: "js_split sep s = w # ws"
    using js_split_nonempty [of sep s] by (cases "js_split sep s") auto
  with Cons show ?case
    by (cases ws) auto
qed

lemma commitHashOf_line: "CHR '' '' \<notin> set h \<Longrightarrow> commitHashOf (h @ CHR '' '' # m) = h"
  by (simp add: commitHashOf_def js_split_first)

lemma messageOf_line: "CHR '' '' \<notin> set h \<Longrightarrow> messageOf (h @ CHR '' '' # m) = m"
  by (simp add: messageOf_def js_split_first js_join_js_split)

lemma ui_bump:
  "determineVersionType [\<lparr>hash = h, message = ''feat: add button'', files = fs\<rparr>] = Minor"
  by code_simp

lemma core_bump:
  "determineVersionType [\<lparr>hash = h, message = ''fix!: null deref'', files = fs\<rparr>] = Major"
  by code_simp

lemma ui_categories:
  "categorizeCommits [\<lparr>hash = h, message = ''feat: add button'', files = fs\<rparr>]
   = \<lparr>features = [''add button ('' @ take 7 h @ '')''], bugFixes = [], refactoring = [],
      performance = [], documentation = [], chores = [], others = []\<rparr>"
  by code_simp

lemma core_categories:
  "categorizeCommits [\<lparr>hash = h, message = ''fix!: null deref'', files = fs\<rparr>]
   = \<lparr>features = [], bugFixes = [''fix!: null deref ('' @ take 7 h @ '')''], refactoring = [],
      performance = [], documentation = [], chores = [], others = []\<rparr>"
  by code_simp

lemma scenario_distinct: "distinct (map name scenarioPackages)"
  by (simp add: scenarioPackages_def)

text \<open>
  Claim C2, as amended. For the packages \<^verbatim>\<open>core\<close> and \<^verbatim>\<open>ui\<close> and the commits
  \<^verbatim>\<open>feat: add button\<close> (changing \<^verbatim>\<open>packages/ui/src/Button.ts\<close>) and
  \<^verbatim>\<open>fix!: null deref\<close> (changing \<^verbatim>\<open>packages/core/src/x.ts\<close>), whatever their hashes
  are: \<^verbatim>\<open>ui\<close> gets the first commit, the bump minor and the item
  \<^verbatim>\<open>add button (<hash7>)\<close> in the category features; \<^verbatim>\<open>core\<close> gets the second
  commit, the bump major and the item \<^verbatim>\<open>fix!: null deref (<hash7>)\<close>, verbatim, in the
  category bugFixes, since the subject starts with \<^verbatim>\<open>fix\<close>. Its category others is
  empty.
\<close>

theorem scenario_changesets:
  assumes "CHR '' '' \<notin> set h1" and "CHR '' '' \<notin> set h2"
    and "getChangedFilesInCommit e h1 = [''packages/ui/src/Button.ts'']"
    and "getChangedFilesInCommit e h2 = [''packages/core/src/x.ts'']"
  shows "recorded (categorizeCommitsByPackage e
                     [h1 @ '' feat: add button'', h2 @ '' fix!: null deref''] scenarioPackages) ''ui''
           = [\<lparr>hash = h1, message = ''feat: add button'', files = [''packages/ui/src/Button.ts'']\<rparr>]
     \<and> determineVersionType
           [\<lparr>hash = h1, message = ''feat: add button'', files = [''packages/ui/src/Button.ts'']\<rparr>]
         = Minor
     \<and> categorizeCommits
           [\<lparr>hash = h1, message = ''feat: add button'', files = [''packages/ui/src/Button.ts'']\<rparr>]
         = \<lparr>features = [''add button ('' @ take 7 h1 @ '')''], bugFixes = [], refactoring = [],
            performance = [], documentation = [], chores = [], others = []\<rparr>
     \<and> recorded (categorizeCommitsByPackage e
                     [h1 @ '' feat: add button'', h2 @ '' fix!: null deref''] scenarioPackages) ''core''
           = [\<lparr>hash = h2, message = ''fix!: null deref'', files = [''packages/core/src/x.ts'']\<rparr>]
     \<and> determineVersionType
           [\<lparr>hash = h2, message = ''fix!: null deref'', files = [''packages/core/src/x.ts'']\<rparr>]
         = Major
     \<and> categorizeCommits
           [\<lparr>hash = h2, message = ''fix!: null deref'', files = [''packages/core/src/x.ts'']\<rparr>]
         = \<lparr>features = [], bugFixes = [''fix!: null deref ('' @ take 7 h2 @ '')''], refactoring = [],
            performance = [], documentation = [], chores = [], others = []\<rparr>"
proof -
  let ?ui = "\<lparr>name = ''ui'', path = ''packages/ui'', directory = ''ui''\<rparr>"
  let ?core = "\<lparr>name = ''core'', path = ''packages/core'', directory = ''core''\<rparr>"
  let ?l1 = "h1 @ '' feat: add button''" and ?l2 = "h2 @ '' fix!: null deref''"
  have hashes: "commitHashOf ?l1 = h1" "commitHashOf ?l2 = h2"
    using assms(1,2) commitHashOf_line by simp_all
  have messages: "messageOf ?l1 = ''feat: add button''" "messageOf ?l2 = ''fix!: null deref''"
    using assms(1,2) messageOf_line by simp_all
  have files_ui: "matchedFiles e ?l1 ?ui = [''packages/ui/src/Button.ts'']" "matchedFiles e ?l2 ?ui = []"
    by (simp_all add: matchedFiles_def hashes assms(3,4))
  have files_core: "matchedFiles e ?l1 ?core = []" "matchedFiles e ?l2 ?core = [''packages/core/src/x.ts'']"
    by (simp_all add: matchedFiles_def hashes assms(3,4))
  have ui: "recorded (categorizeCommitsByPackage e [?l1, ?l2] scenarioPackages) (name ?ui)
        = map (\<lambda>l. attributionOf e l ?ui) (filter (\<lambda>l. attributed e l ?ui) [?l1, ?l2])"
    by (rule recorded_package [OF scenario_distinct]) (simp add: scenarioPackages_def)
  have core: "recorded (categorizeCommitsByPackage e [?l1, ?l2] scenarioPackages) (name ?core)
        = map (\<lambda>l. attributionOf e l ?core) (filter (\<lambda>l. attributed e l ?core) [?l1, ?l2])"
    by (rule recorded_package [OF scenario_distinct]) (simp add: scenarioPackages_def)
  have "recorded (categorizeCommitsByPackage e [?l1, ?l2] scenarioPackages) ''ui''
        = [\<lparr>hash = h1, message = ''feat: add button'', files = [''packages/ui/src/Button.ts'']\<rparr>]"
    using ui by (simp add: attributed_def attributionOf_def files_ui hashes messages)
  moreover have "recorded (categorizeCommitsByPackage e [?l1, ?l2] scenarioPackages) ''core''
        = [\<lparr>hash = h2, message = ''fix!: null deref'', files = [''packages/core/src/x.ts'']\<rparr>]"
    using core by (simp add: attributed_def attributionOf_def files_core hashes messages)
  ultimately show ?thesis
    by (simp only: ui_bump core_bump ui_categories core_categories simp_thms)
qed

theorem scenario_changesets_witness:
  "recorded (categorizeCommitsByPackage scenarioEnv scenarioLog scenarioPackages) ''core''
     = [\<lparr>hash = ''2222222'', message = ''fix!: null deref'', files = [''packages/core/src/x.ts'']\<rparr>]
   \<and> bugFixes (categorizeCommits
        [\<lparr>hash = ''2222222'', message = ''fix!: null deref'', files = [''packages/core/src/x.ts'']\<rparr>])
     = [''fix!: null deref (2222222)'']
   \<and> recorded (categorizeCommitsByPackage scenarioEnv scenarioLog scenarioPackages) ''ui''
     = [\<lparr>hash = ''1111111'', message = ''feat: add button'', files = [''packages/ui/src/Button.ts'']\<rparr>]
   \<and> features (categorizeCommits
        [\<lparr>hash = ''1111111'', message = ''feat: add button'', files = [''packages/ui/src/Button.ts'']\<rparr>])
     = [''add button (1111111)'']"
proof -
  have h: "CHR '' '' \<notin> set ''1111111''" "CHR '' '' \<notin> set ''2222222''"
    by simp_all
  have f1: "getChangedFilesInCommit scenarioEnv ''1111111'' = [''packages/ui/src/Button.ts'']"
    by code_simp
  have f2: "getChangedFilesInCommit scenarioEnv ''2222222'' = [''packages/core/src/x.ts'']"
    by code_simp
  from scenario_changesets [OF h f1 f2] show ?thesis
    by (simp add: scenarioLog_def)
qed

text \<open>The scenario as the specification states it, with the item of \<^verbatim>\<open>core\<close> in the
  category others, does not hold.\<close>

theorem scenario_core_others_counterexample:
  "\<not> (determineVersionType
         (recorded (categorizeCommitsByPackage scenarioEnv scenarioLog scenarioPackages) ''ui'') = Minor
       \<and> ''add button (1111111)''
           \<in> set (features (categorizeCommits
                 (recorded (categorizeCommitsByPackage scenarioEnv scenarioLog scenarioPackages) ''ui'')))
       \<and> determineVersionType
           (recorded (categorizeCommitsByPackage scenarioEnv scenarioLog scenarioPackages) ''core'') = Major
       \<and> ''fix!: null deref (2222222)''
           \<in> set (others (categorizeCommits
                 (recorded (categorizeCommitsByPackage scenarioEnv scenarioLog scenarioPackages) ''core''))))"
proof -
  have "others (categorizeCommits
          (recorded (categorizeCommitsByPackage scenarioEnv scenarioLog scenarioPackages) ''core'')) = []"
    by code_simp
  then show ?thesis by simp
qed

end
